theory Spec2Isabelle
  imports Main "HOL-Library.Mapping" "HOL-Library.AList_Mapping"
begin

section \<open>Remote explorer contributions: forwarded ports view and automatic port forwarding\<close>

text \<open>
  A shallow embedding of \<^verbatim>\<open>vs/workbench/contrib/remote/browser/remoteExplorer.ts\<close>.
  The file holds two workbench contributions, \<^verbatim>\<open>ForwardedPortsView\<close> and
  \<^verbatim>\<open>AutomaticPortForwarding\<close>. Both are event driven: they subscribe to the events
  of the services injected into them and mutate their private fields and those services
  in the callbacks. The embedding passes the state explicitly. The state of a controller
  is a record of its private fields, of what it currently holds at each of its
  collaborators (the live listeners, scanners, badges and status bar entries) and of logs
  of the calls it made to them.
\<close>

subsection \<open>Values read from the collaborating services\<close>

text \<open>\<^verbatim>\<open>export const VIEWLET_ID = 'workbench.view.remote';\<close>\<close>

definition VIEWLET_ID :: string where
  "VIEWLET_ID = ''workbench.view.remote''"

text \<open>\<^verbatim>\<open>private static AUTO_FORWARD_SETTING = 'remote.autoForwardPorts';\<close>\<close>

definition AUTO_FORWARD_SETTING :: string where
  "AUTO_FORWARD_SETTING = ''remote.autoForwardPorts''"

text \<open>The local URL a \<^verbatim>\<open>UrlFinder\<close> reports: \<^verbatim>\<open>{ host: string, port: number }\<close>.\<close>

record localUrl =
  host :: string
  port :: nat

text \<open>
  The fields of a \<^verbatim>\<open>RemoteTunnel\<close> that the file reads from the result of
  \<^verbatim>\<open>remoteExplorerService.forward\<close>.
\<close>

record tunnel =
  tunnelRemoteHost :: string
  tunnelRemotePort :: nat
  localAddress :: string

text \<open>
  What is fixed for the lifetime of a controller: \<^verbatim>\<open>environmentService.remoteAuthority\<close>
  (a string or undefined) and the names this file imports from modules that are not part
  of it. They are parameters of the model: \<^verbatim>\<open>TUNNEL_VIEW_ID\<close>,
  \<^verbatim>\<open>mapHasTunnelLocalhostOrAllInterfaces\<close> and \<^verbatim>\<open>MakeAddress\<close> from
  \<^verbatim>\<open>remoteExplorerService\<close>, \<^verbatim>\<open>ForwardPortAction.INLINE_ID\<close> and
  \<^verbatim>\<open>OpenPortInBrowserAction.LABEL\<close> from \<^verbatim>\<open>tunnelView\<close>.
\<close>

record deps =
  remoteAuthority :: "string option"
  TUNNEL_VIEW_ID :: string
  mapHasTunnelLocalhostOrAllInterfaces :: "(string, tunnel) mapping \<Rightarrow> string \<Rightarrow> nat \<Rightarrow> bool"
  MakeAddress :: "string \<Rightarrow> nat \<Rightarrow> string"
  ForwardPortAction_INLINE_ID :: string
  OpenPortInBrowserAction_LABEL :: string

text \<open>
  What the services answer at the moment a callback runs; it may differ from one event
  to the next.
  \<^item> \<open>forwardedPortsViewEnabled\<close>: the truthiness of
    \<^verbatim>\<open>forwardedPortsViewEnabled.getValue(this.contextKeyService)\<close>;
  \<^item> \<open>autoForwardPorts\<close>: the truthiness of
    \<^verbatim>\<open>configurationService.getValue(AUTO_FORWARD_SETTING)\<close>;
  \<^item> \<open>forwarded\<close>: \<^verbatim>\<open>remoteExplorerService.tunnelModel.forwarded\<close>, a
    \<^verbatim>\<open>Map\<close> from address strings to tunnels;
  \<^item> \<open>getViewContainerById\<close>, \<open>getViewContainerByViewId\<close>: the lookups of the
    view descriptor service; a view container is represented by its id, a failed lookup
    by \<open>None\<close>.
\<close>

record env =
  forwardedPortsViewEnabled :: bool
  autoForwardPorts :: bool
  forwarded :: "(string, tunnel) mapping"
  getViewContainerById :: "string \<Rightarrow> string option"
  getViewContainerByViewId :: "string \<Rightarrow> string option"

text \<open>
  JavaScript truthiness of \<^verbatim>\<open>string | undefined\<close>: undefined and the empty string
  are falsy.
\<close>

definition truthy :: "string option \<Rightarrow> bool" where
  "truthy s = (case s of None \<Rightarrow> False | Some v \<Rightarrow> v \<noteq> [])"

text \<open>\<^verbatim>\<open>forwarded.size\<close>: the number of keys of the map.\<close>

definition size_forwarded :: "env \<Rightarrow> nat" where
  "size_forwarded e = Mapping.size (forwarded e)"

subsection \<open>Disposables and the services that hand them out\<close>

type_synonym handle = nat

text \<open>
  Every \<^verbatim>\<open>IDisposable\<close> the two controllers obtain, named by the call that returns it
  and numbered by a handle. Disposing one removes it from the service that handed it out.
\<close>

datatype disposable =
    ViewWelcomeContent handle
  | ContextListener handle
  | ForwardPortListener handle
  | ClosePortListener handle
  | ViewsRegisteredListener handle
  | ViewContainerActivity handle
  | StatusbarEntryAccessor handle
  | ConfigurationListener handle
  | UrlFinder handle
  | MatchLocalUrlListener handle

text \<open>
  What both controllers share: \<open>nextHandle\<close> is the next unused handle,
  \<open>disposeCalls\<close> logs every call of \<^verbatim>\<open>dispose()\<close>, \<open>store\<close> is the controller's own
  \<^verbatim>\<open>Disposable\<close> store, filled by \<^verbatim>\<open>this._register\<close>, and \<open>contextListeners\<close> are the
  controller's live subscriptions to \<^verbatim>\<open>contextKeyService.onDidChangeContext\<close>, oldest
  first.
\<close>

record world =
  nextHandle :: handle
  disposeCalls :: "disposable list"
  store :: "disposable list"
  contextListeners :: "handle list"

text \<open>A new disposable takes the next unused handle.\<close>

definition newHandle :: "'a world_scheme \<Rightarrow> handle \<times> 'a world_scheme" where
  "newHandle w = (nextHandle w, w\<lparr>nextHandle := Suc (nextHandle w)\<rparr>)"

text \<open>\<^verbatim>\<open>this._register(d)\<close>.\<close>

definition register :: "disposable \<Rightarrow> 'a world_scheme \<Rightarrow> 'a world_scheme" where
  "register x w = w\<lparr>store := store w @ [x]\<rparr>"

text \<open>
  The log of a \<^verbatim>\<open>dispose()\<close>. Each service removes the disposed handle from what it
  holds, so disposing again (as \<^verbatim>\<open>updateActivityBadge\<close> and \<^verbatim>\<open>startUrlFinder\<close> do
  with a field they do not clear) changes nothing but this log.
\<close>

definition disposed :: "disposable \<Rightarrow> 'a world_scheme \<Rightarrow> 'a world_scheme" where
  "disposed x w = w\<lparr>disposeCalls := disposeCalls w @ [x]\<rparr>"

text \<open>\<^verbatim>\<open>contextKeyService.onDidChangeContext(callback)\<close> and the \<^verbatim>\<open>dispose()\<close> of
  the subscription it returns.\<close>

definition onDidChangeContext :: "'a world_scheme \<Rightarrow> handle \<times> 'a world_scheme" where
  "onDidChangeContext w =
     (let (h, w1) = newHandle w
      in (h, w1\<lparr>contextListeners := contextListeners w1 @ [h]\<rparr>))"

definition disposeContextListener :: "handle \<Rightarrow> 'a world_scheme \<Rightarrow> 'a world_scheme" where
  "disposeContextListener h w =
     disposed (ContextListener h) (w\<lparr>contextListeners := removeAll h (contextListeners w)\<rparr>)"

subsection \<open>Events\<close>

text \<open>
  The events the controllers listen to, with what their callbacks read from the payload:
  \<^item> \<open>ConfigurationChanged a\<close>: \<^verbatim>\<open>onDidChangeConfiguration\<close>, with
    \<open>a = e.affectsConfiguration(AUTO_FORWARD_SETTING)\<close>;
  \<^item> \<open>ContextChanged a\<close>: \<^verbatim>\<open>onDidChangeContext\<close>, with
    \<open>a = e.affectsSome(new Set(forwardedPortsViewEnabled.keys()))\<close>;
  \<^item> \<open>PortForwarded\<close>, \<open>PortClosed\<close>: \<^verbatim>\<open>tunnelModel.onForwardPort\<close> and
    \<^verbatim>\<open>tunnelModel.onClosePort\<close>;
  \<^item> \<open>ViewsRegistered vs\<close>: \<^verbatim>\<open>onViewsRegistered\<close>; \<open>vs\<close> lists, for each
    registration, the ids of the registered views and the view container;
  \<^item> \<open>MatchedLocalUrl f u\<close>: the \<^verbatim>\<open>UrlFinder\<close> with handle \<open>f\<close> fires
    \<^verbatim>\<open>onDidMatchLocalUrl\<close> with the local URL \<open>u\<close>;
  \<^item> \<open>ForwardSettled i r\<close>: the promise of the \<open>i\<close>-th pending call of
    \<^verbatim>\<open>remoteExplorerService.forward\<close> settles with \<open>r\<close>.
  An event is delivered to the listeners that are live when it fires, oldest first, each
  called once. The event that the views registry fires when \<^verbatim>\<open>registerViews\<close> is
  called is an event like any other: \<^verbatim>\<open>registerViews\<close> is the last call of
  \<^verbatim>\<open>enableForwardedPortsView\<close>, so its listeners run on the state that
  \<^verbatim>\<open>enableForwardedPortsView\<close> returns.
\<close>

datatype settled = Fulfilled "tunnel option" | Rejected

datatype event =
    ConfigurationChanged bool
  | ContextChanged bool
  | PortForwarded
  | PortClosed
  | ViewsRegistered "(string list \<times> string) list"
  | MatchedLocalUrl handle localUrl
  | ForwardSettled nat settled

subsection \<open>AutomaticPortForwarding\<close>

text \<open>
  The arguments of one call of \<^verbatim>\<open>notificationService.prompt\<close>. A choice is its label
  and what its \<^verbatim>\<open>run\<close> does: open the address in the browser, or show the view.
\<close>

datatype severity = Ignore | Info | Warning | Error

datatype choice =
    BrowserChoice string string
  | ShowChoice string

record prompt =
  prompt_severity :: severity
  message :: string
  choices :: "choice list"
  neverShowAgain :: "string \<times> bool"

text \<open>
  The private fields \<^verbatim>\<open>contextServiceListener\<close> and \<^verbatim>\<open>urlFinder\<close> (undefined is
  \<open>None\<close>); what the controller holds at its services: its live subscriptions to
  \<^verbatim>\<open>onDidChangeConfiguration\<close>, the \<^verbatim>\<open>UrlFinder\<close>s created and not disposed, and
  the live subscriptions to \<^verbatim>\<open>onDidMatchLocalUrl\<close>, each with the \<^verbatim>\<open>UrlFinder\<close> it
  listens to; and what it has asked of them: \<open>forwardCalls\<close> logs the calls of
  \<^verbatim>\<open>remoteExplorerService.forward\<close>, \<open>awaiting\<close> holds those whose promise has not
  settled yet, and \<open>prompts\<close> logs the notifications shown.
\<close>

record apf = world +
  contextServiceListener :: "handle option"
  urlFinder :: "handle option"
  configurationListeners :: "handle list"
  urlFinders :: "handle list"
  matchLocalUrlListeners :: "(handle \<times> handle) list"
  forwardCalls :: "localUrl list"
  awaiting :: "localUrl list"
  prompts :: "prompt list"

text \<open>\<^verbatim>\<open>configurationService.onDidChangeConfiguration(callback)\<close>.\<close>

definition onDidChangeConfiguration :: "apf \<Rightarrow> handle \<times> apf" where
  "onDidChangeConfiguration st =
     (let (h, st1) = newHandle st
      in (h, st1\<lparr>configurationListeners := configurationListeners st1 @ [h]\<rparr>))"

text \<open>\<^verbatim>\<open>new UrlFinder(this.terminalService)\<close> and its \<^verbatim>\<open>dispose()\<close>.\<close>

definition newUrlFinder :: "apf \<Rightarrow> handle \<times> apf" where
  "newUrlFinder st =
     (let (f, st1) = newHandle st
      in (f, st1\<lparr>urlFinders := urlFinders st1 @ [f]\<rparr>))"

definition disposeUrlFinder :: "handle \<Rightarrow> apf \<Rightarrow> apf" where
  "disposeUrlFinder f st =
     disposed (UrlFinder f) (st\<lparr>urlFinders := removeAll f (urlFinders st)\<rparr>)"

text \<open>\<^verbatim>\<open>urlFinder.onDidMatchLocalUrl(callback)\<close> on the \<^verbatim>\<open>UrlFinder\<close> \<open>f\<close>.\<close>

definition subscribeMatchLocalUrl :: "handle \<Rightarrow> apf \<Rightarrow> handle \<times> apf" where
  "subscribeMatchLocalUrl f st =
     (let (l, st1) = newHandle st
      in (l, st1\<lparr>matchLocalUrlListeners := matchLocalUrlListeners st1 @ [(l, f)]\<rparr>))"

text \<open>\<^verbatim>\<open>stopUrlFinder\<close>, lines 198 to 203.\<close>

definition stopUrlFinder :: "apf \<Rightarrow> apf" where
  "stopUrlFinder st =
     (case urlFinder st of
        Some f \<Rightarrow> (disposeUrlFinder f st)\<lparr>urlFinder := None\<rparr>
      | None \<Rightarrow> st)"

text \<open>
  \<^verbatim>\<open>startUrlFinder\<close>, lines 161 to 168 and the subscription of line 169: the guard
  returns only when there is no \<^verbatim>\<open>urlFinder\<close> and the context key is falsy; past it
  the context listener is disposed (the field keeps the disposed subscription), a new
  \<^verbatim>\<open>UrlFinder\<close> is created, registered and stored in the field, and a listener is
  subscribed to its \<^verbatim>\<open>onDidMatchLocalUrl\<close> and registered.
\<close>

definition startUrlFinder :: "env \<Rightarrow> apf \<Rightarrow> apf" where
  "startUrlFinder e st =
     (if urlFinder st = None \<and> \<not> forwardedPortsViewEnabled e then st
      else
        let st1 = (case contextServiceListener st of
                     Some h \<Rightarrow> disposeContextListener h st
                   | None \<Rightarrow> st);
            (f, st2) = newUrlFinder st1;
            st3 = (register (UrlFinder f) st2)\<lparr>urlFinder := Some f\<rparr>;
            (l, st4) = subscribeMatchLocalUrl f st3
        in register (MatchLocalUrlListener l) st4)"

text \<open>\<^verbatim>\<open>tryStartStopUrlFinder\<close>, lines 153 to 159.\<close>

definition tryStartStopUrlFinder :: "env \<Rightarrow> apf \<Rightarrow> apf" where
  "tryStartStopUrlFinder e st =
     (if autoForwardPorts e then startUrlFinder e st else stopUrlFinder st)"

text \<open>
  The callback of \<^verbatim>\<open>onDidMatchLocalUrl\<close> up to its \<^verbatim>\<open>await\<close>, lines 170 to 173:
  it returns at once when the forwarded map has the tunnel, and calls
  \<^verbatim>\<open>remoteExplorerService.forward(localUrl)\<close> otherwise.
\<close>

definition onDidMatchLocalUrl :: "deps \<Rightarrow> env \<Rightarrow> localUrl \<Rightarrow> apf \<Rightarrow> apf" where
  "onDidMatchLocalUrl d e u st =
     (if mapHasTunnelLocalhostOrAllInterfaces d (forwarded e) (host u) (port u) then st
      else st\<lparr>forwardCalls := forwardCalls st @ [u], awaiting := awaiting st @ [u]\<rparr>)"

text \<open>
  The rest of the callback, lines 174 to 194, which runs when the promise settles. A
  rejected promise ends the callback at the \<^verbatim>\<open>await\<close>; a result that is undefined
  skips the body of \<^verbatim>\<open>if (forwarded)\<close>.
\<close>

definition automaticForward_message :: "string \<Rightarrow> string \<Rightarrow> string" where
  "automaticForward_message address local =
     address @ '' from the remote has been forwarded to '' @ local @ '' locally.''"

definition automaticForward_prompt :: "deps \<Rightarrow> tunnel \<Rightarrow> prompt" where
  "automaticForward_prompt d fwd =
     (let address = MakeAddress d (tunnelRemoteHost fwd) (tunnelRemotePort fwd);
          msg = automaticForward_message address (localAddress fwd);
          browserChoice = BrowserChoice (OpenPortInBrowserAction_LABEL d) address;
          showChoice = ShowChoice ''Show Forwarded Ports''
      in \<lparr>prompt_severity = Info, message = msg,
          choices = [browserChoice, showChoice],
          neverShowAgain = (''remote.tunnelsView.autoForwardNeverShow'', True)\<rparr>)"

definition afterForward :: "deps \<Rightarrow> settled \<Rightarrow> apf \<Rightarrow> apf" where
  "afterForward d r st =
     (case r of
        Rejected \<Rightarrow> st
      | Fulfilled None \<Rightarrow> st
      | Fulfilled (Some fwd) \<Rightarrow>
          st\<lparr>prompts := prompts st @ [automaticForward_prompt d fwd]\<rparr>)"

text \<open>
  The listeners of the \<^verbatim>\<open>UrlFinder\<close> \<open>f\<close> that hear its event: none once \<open>f\<close> is
  disposed.
\<close>

definition matchListeners :: "handle \<Rightarrow> apf \<Rightarrow> handle list" where
  "matchListeners f st =
     (if f \<in> set (urlFinders st)
      then map fst (filter (\<lambda>lf. snd lf = f) (matchLocalUrlListeners st))
      else [])"

text \<open>
  One event. The callbacks are those of the subscriptions: the configuration listener
  of lines 137 to 141, the context listener of lines 144 to 148 and the match listener
  of line 169. The settling of a pending forward resumes its callback.
\<close>

fun apf_step :: "deps \<Rightarrow> env \<Rightarrow> event \<Rightarrow> apf \<Rightarrow> apf" where
  "apf_step d e (ConfigurationChanged a) st =
     fold (\<lambda>h s. if a then tryStartStopUrlFinder e s else s) (configurationListeners st) st"
| "apf_step d e (ContextChanged a) st =
     fold (\<lambda>h s. if a then tryStartStopUrlFinder e s else s) (contextListeners st) st"
| "apf_step d e (MatchedLocalUrl f u) st =
     fold (\<lambda>l s. onDidMatchLocalUrl d e u s) (matchListeners f st) st"
| "apf_step d e (ForwardSettled i r) st =
     (if i < length (awaiting st)
      then afterForward d r (st\<lparr>awaiting := take i (awaiting st) @ drop (Suc i) (awaiting st)\<rparr>)
      else st)"
| "apf_step d e ev st = st"

text \<open>The constructor, lines 136 to 150.\<close>

definition apf_new :: apf where
  "apf_new =
     \<lparr>nextHandle = 0, disposeCalls = [], store = [], contextListeners = [],
      contextServiceListener = None, urlFinder = None,
      configurationListeners = [], urlFinders = [], matchLocalUrlListeners = [],
      forwardCalls = [], awaiting = [], prompts = []\<rparr>"

definition apf_constructor :: "deps \<Rightarrow> env \<Rightarrow> apf" where
  "apf_constructor d e =
     (let (c, st1) = onDidChangeConfiguration apf_new;
          st2 = register (ConfigurationListener c) st1
      in if truthy (remoteAuthority d) then
           let (l, st3) = onDidChangeContext st2;
               st4 = (register (ContextListener l) st3)\<lparr>contextServiceListener := Some l\<rparr>
           in tryStartStopUrlFinder e st4
         else st2)"

text \<open>A run: the events in order, each with the answers of the services at its time.\<close>

fun apf_run :: "deps \<Rightarrow> (env \<times> event) list \<Rightarrow> apf \<Rightarrow> apf" where
  "apf_run d [] st = st"
| "apf_run d ((e, ev) # tr) st = apf_run d tr (apf_step d e ev st)"

subsection \<open>ForwardedPortsView\<close>

text \<open>
  The content of the status bar entry, the getter \<^verbatim>\<open>entry\<close> of lines 110 to 117 (the
  localised strings are the default ones).
\<close>

record statusbar_entry =
  text_of :: string
  ariaLabel :: string
  tooltip :: string
  command :: string

definition entry :: "deps \<Rightarrow> statusbar_entry" where
  "entry d =
     \<lparr>text_of = ''$(radio-tower) '' @ ''Application running'',
      ariaLabel = ''Application running and available locally through port forwarding'',
      tooltip = ''Application available locally (port forwarded)'',
      command = TUNNEL_VIEW_ID d @ ''.focus''\<rparr>"

text \<open>
  The private fields \<^verbatim>\<open>contextKeyListener\<close>, \<^verbatim>\<open>_activityBadge\<close> and
  \<^verbatim>\<open>entryAccessor\<close>; what the controller holds at its services: the welcome content
  at the views registry, its live listeners of \<^verbatim>\<open>onForwardPort\<close>, \<^verbatim>\<open>onClosePort\<close>
  and \<^verbatim>\<open>onViewsRegistered\<close>, the badges shown by the activity service (each with its
  view container and its number) and the entries present in the status bar (each with
  its content and id); and \<open>registerViewsCalls\<close>: the view container of each call
  \<^verbatim>\<open>viewsRegistry.registerViews([tunnelPanelDescriptor], viewContainer)\<close>.
\<close>

record fpv = world +
  contextKeyListener :: "handle option"
  activityBadge :: "handle option"
  entryAccessor :: "handle option"
  welcomeContents :: "(handle \<times> string \<times> string) list"
  forwardPortListeners :: "handle list"
  closePortListeners :: "handle list"
  viewsRegisteredListeners :: "handle list"
  activities :: "(handle \<times> string \<times> nat) list"
  statusbarEntries :: "(handle \<times> statusbar_entry \<times> string) list"
  registerViewsCalls :: "string list"

text \<open>The calls that return a disposable, and the \<^verbatim>\<open>dispose()\<close> of those the
  controller disposes.\<close>

definition registerViewWelcomeContent :: "string \<Rightarrow> string \<Rightarrow> fpv \<Rightarrow> handle \<times> fpv" where
  "registerViewWelcomeContent i content st =
     (let (h, st1) = newHandle st
      in (h, st1\<lparr>welcomeContents := welcomeContents st1 @ [(h, i, content)]\<rparr>))"

definition onForwardPort :: "fpv \<Rightarrow> handle \<times> fpv" where
  "onForwardPort st =
     (let (h, st1) = newHandle st
      in (h, st1\<lparr>forwardPortListeners := forwardPortListeners st1 @ [h]\<rparr>))"

definition onClosePort :: "fpv \<Rightarrow> handle \<times> fpv" where
  "onClosePort st =
     (let (h, st1) = newHandle st
      in (h, st1\<lparr>closePortListeners := closePortListeners st1 @ [h]\<rparr>))"

definition onViewsRegistered :: "fpv \<Rightarrow> handle \<times> fpv" where
  "onViewsRegistered st =
     (let (h, st1) = newHandle st
      in (h, st1\<lparr>viewsRegisteredListeners := viewsRegisteredListeners st1 @ [h]\<rparr>))"

definition disposeViewsRegisteredListener :: "handle \<Rightarrow> fpv \<Rightarrow> fpv" where
  "disposeViewsRegisteredListener h st =
     disposed (ViewsRegisteredListener h)
       (st\<lparr>viewsRegisteredListeners := removeAll h (viewsRegisteredListeners st)\<rparr>)"

definition showViewContainerActivity :: "string \<Rightarrow> nat \<Rightarrow> fpv \<Rightarrow> handle \<times> fpv" where
  "showViewContainerActivity viewContainerId n st =
     (let (h, st1) = newHandle st
      in (h, st1\<lparr>activities := activities st1 @ [(h, viewContainerId, n)]\<rparr>))"

definition disposeActivity :: "handle \<Rightarrow> fpv \<Rightarrow> fpv" where
  "disposeActivity h st =
     disposed (ViewContainerActivity h)
       (st\<lparr>activities := filter (\<lambda>b. fst b \<noteq> h) (activities st)\<rparr>)"

definition addEntry :: "statusbar_entry \<Rightarrow> string \<Rightarrow> fpv \<Rightarrow> handle \<times> fpv" where
  "addEntry en i st =
     (let (h, st1) = newHandle st
      in (h, st1\<lparr>statusbarEntries := statusbarEntries st1 @ [(h, en, i)]\<rparr>))"

definition disposeEntry :: "handle \<Rightarrow> fpv \<Rightarrow> fpv" where
  "disposeEntry h st =
     disposed (StatusbarEntryAccessor h)
       (st\<lparr>statusbarEntries := filter (\<lambda>x. fst x \<noteq> h) (statusbarEntries st)\<rparr>)"

text \<open>\<^verbatim>\<open>enableForwardedPortsView\<close>, lines 46 to 67.\<close>

definition enableForwardedPortsView :: "deps \<Rightarrow> env \<Rightarrow> fpv \<Rightarrow> fpv" where
  "enableForwardedPortsView d e st =
     (let st1 = (case contextKeyListener st of
                   Some h \<Rightarrow> (disposeContextListener h st)\<lparr>contextKeyListener := None\<rparr>
                 | None \<Rightarrow> st);
          viewEnabled = forwardedPortsViewEnabled e
      in if truthy (remoteAuthority d) \<and> viewEnabled then
           (case getViewContainerById e VIEWLET_ID of
              Some viewContainer \<Rightarrow>
                st1\<lparr>registerViewsCalls := registerViewsCalls st1 @ [viewContainer]\<rparr>
            | None \<Rightarrow> st1)
         else if truthy (remoteAuthority d) then
           (let (h, st2) = onDidChangeContext st1
            in st2\<lparr>contextKeyListener := Some h\<rparr>)
         else st1)"

text \<open>
  \<^verbatim>\<open>enableBadgeAndStatusBar\<close>, lines 69 to 85: the two listeners of the tunnel model
  are registered in the store, the listener of the views registry is not.
\<close>

definition enableBadgeAndStatusBar :: "fpv \<Rightarrow> fpv" where
  "enableBadgeAndStatusBar st =
     (let (a, st1) = onForwardPort st;
          st2 = register (ForwardPortListener a) st1;
          (b, st3) = onClosePort st2;
          st4 = register (ClosePortListener b) st3;
          (c, st5) = onViewsRegistered st4
      in st5)"

text \<open>
  \<^verbatim>\<open>updateActivityBadge\<close>, lines 87 to 99. The badge is a \<^verbatim>\<open>NumberBadge\<close> with the
  size of the forwarded map; the field is not cleared when the badge is disposed.
\<close>

definition updateActivityBadge :: "deps \<Rightarrow> env \<Rightarrow> fpv \<Rightarrow> fpv" where
  "updateActivityBadge d e st =
     (let st1 = (case activityBadge st of
                   Some h \<Rightarrow> disposeActivity h st
                 | None \<Rightarrow> st)
      in if size_forwarded e > 0 then
           (case getViewContainerByViewId e (TUNNEL_VIEW_ID d) of
              Some viewContainer \<Rightarrow>
                (let (h, st2) = showViewContainerActivity viewContainer (size_forwarded e) st1
                 in st2\<lparr>activityBadge := Some h\<rparr>)
            | None \<Rightarrow> st1)
         else st1)"

text \<open>\<^verbatim>\<open>updateStatusBar\<close>, lines 101 to 108.\<close>

definition updateStatusBar :: "deps \<Rightarrow> env \<Rightarrow> fpv \<Rightarrow> fpv" where
  "updateStatusBar d e st =
     (if entryAccessor st = None \<and> size_forwarded e > 0 then
        (let (h, st1) = addEntry (entry d) ''status.forwardedPorts'' st
         in (register (StatusbarEntryAccessor h) st1)\<lparr>entryAccessor := Some h\<rparr>)
      else
        (case entryAccessor st of
           Some h \<Rightarrow>
             (if size_forwarded e = 0 then (disposeEntry h st)\<lparr>entryAccessor := None\<rparr> else st)
         | None \<Rightarrow> st))"

text \<open>
  The callbacks of the subscriptions: the tunnel model listeners of lines 70 to 77, and
  the views registry listener of lines 78 to 84, which disposes itself (\<open>h\<close> is its own
  subscription) once a registration holds the tunnel view.
\<close>

definition onTunnelModelChange :: "deps \<Rightarrow> env \<Rightarrow> fpv \<Rightarrow> fpv" where
  "onTunnelModelChange d e st = updateStatusBar d e (updateActivityBadge d e st)"

definition hasTunnelView :: "deps \<Rightarrow> (string list \<times> string) list \<Rightarrow> bool" where
  "hasTunnelView d vs =
     (find (\<lambda>view. find (\<lambda>viewDescriptor. viewDescriptor = TUNNEL_VIEW_ID d) (fst view) \<noteq> None) vs
        \<noteq> None)"

definition onViewsRegistered_callback ::
  "deps \<Rightarrow> env \<Rightarrow> (string list \<times> string) list \<Rightarrow> handle \<Rightarrow> fpv \<Rightarrow> fpv" where
  "onViewsRegistered_callback d e vs h st =
     (if hasTunnelView d vs
      then disposeViewsRegisteredListener h (onTunnelModelChange d e st)
      else st)"

text \<open>One event; the context listener is the one of lines 61 to 65.\<close>

fun fpv_step :: "deps \<Rightarrow> env \<Rightarrow> event \<Rightarrow> fpv \<Rightarrow> fpv" where
  "fpv_step d e (ContextChanged a) st =
     fold (\<lambda>h s. if a then enableForwardedPortsView d e s else s) (contextListeners st) st"
| "fpv_step d e PortForwarded st =
     fold (\<lambda>h s. onTunnelModelChange d e s) (forwardPortListeners st) st"
| "fpv_step d e PortClosed st =
     fold (\<lambda>h s. onTunnelModelChange d e s) (closePortListeners st) st"
| "fpv_step d e (ViewsRegistered vs) st =
     fold (onViewsRegistered_callback d e vs) (viewsRegisteredListeners st) st"
| "fpv_step d e ev st = st"

text \<open>The constructor, lines 38 to 43.\<close>

definition fpv_new :: fpv where
  "fpv_new =
     \<lparr>nextHandle = 0, disposeCalls = [], store = [], contextListeners = [],
      contextKeyListener = None, activityBadge = None, entryAccessor = None,
      welcomeContents = [], forwardPortListeners = [], closePortListeners = [],
      viewsRegisteredListeners = [], activities = [], statusbarEntries = [],
      registerViewsCalls = []\<rparr>"

definition welcomeContent :: "deps \<Rightarrow> string" where
  "welcomeContent d =
     ''Forwarded ports allow you to access your running applications locally.'' @ [CHR 0x0A] @
     ''[Forward a Port](command:'' @ ForwardPortAction_INLINE_ID d @ '')''"

definition fpv_constructor :: "deps \<Rightarrow> env \<Rightarrow> fpv" where
  "fpv_constructor d e =
     (let (w, st1) = registerViewWelcomeContent (TUNNEL_VIEW_ID d) (welcomeContent d) fpv_new;
          st2 = register (ViewWelcomeContent w) st1;
          st3 = enableBadgeAndStatusBar st2
      in enableForwardedPortsView d e st3)"

fun fpv_run :: "deps \<Rightarrow> (env \<times> event) list \<Rightarrow> fpv \<Rightarrow> fpv" where
  "fpv_run d [] st = st"
| "fpv_run d ((e, ev) # tr) st = fpv_run d tr (fpv_step d e ev st)"

subsection \<open>Invariants\<close>

text \<open>
  What holds of \<^verbatim>\<open>AutomaticPortForwarding\<close> after its constructor and after every
  event: a live context listener is the one in the field
  \<^verbatim>\<open>contextServiceListener\<close>, and there is none while a \<^verbatim>\<open>urlFinder\<close> is set;
  the handles in use are below the next unused one; and every live \<^verbatim>\<open>UrlFinder\<close>
  has exactly one listener of its \<^verbatim>\<open>onDidMatchLocalUrl\<close>.
\<close>

definition apf_inv :: "apf \<Rightarrow> bool" where
  "apf_inv st =
     ((\<forall>h \<in> set (contextListeners st). contextServiceListener st = Some h) \<and>
      (urlFinder st \<noteq> None \<longrightarrow> contextListeners st = []) \<and>
      (\<forall>f \<in> set (urlFinders st). f < nextHandle st) \<and>
      (\<forall>lf \<in> set (matchLocalUrlListeners st). snd lf < nextHandle st) \<and>
      (\<forall>f \<in> set (urlFinders st).
         length (filter (\<lambda>lf. snd lf = f) (matchLocalUrlListeners st)) = 1))"

text \<open>
  What holds of \<^verbatim>\<open>ForwardedPortsView\<close> after its constructor and after every event:
  the tunnel model has one listener of each kind and the views registry at most one;
  the live context listener, if any, is the one in \<^verbatim>\<open>contextKeyListener\<close>, and while
  there is one the session is remote and no view has been registered; every badge shown
  is the one in \<^verbatim>\<open>_activityBadge\<close>, whose handle is not a future one; the entries in
  the status bar are the one behind \<^verbatim>\<open>entryAccessor\<close>, if any.
\<close>

definition fpv_inv :: "deps \<Rightarrow> fpv \<Rightarrow> bool" where
  "fpv_inv d st =
     (length (forwardPortListeners st) = 1 \<and>
      length (closePortListeners st) = 1 \<and>
      length (viewsRegisteredListeners st) \<le> 1 \<and>
      contextListeners st = (case contextKeyListener st of None \<Rightarrow> [] | Some h \<Rightarrow> [h]) \<and>
      (contextKeyListener st \<noteq> None \<longrightarrow>
         registerViewsCalls st = [] \<and> truthy (remoteAuthority d)) \<and>
      length (registerViewsCalls st) \<le> 1 \<and>
      length (activities st) \<le> 1 \<and>
      (\<forall>b \<in> set (activities st). activityBadge st = Some (fst b)) \<and>
      (\<forall>h. activityBadge st = Some h \<longrightarrow> h < nextHandle st) \<and>
      statusbarEntries st =
        (case entryAccessor st of
           None \<Rightarrow> []
         | Some h \<Rightarrow> [(h, entry d, ''status.forwardedPorts'')]))"

subsection \<open>What a user sees\<close>

text \<open>The badges shown, each with its view container and number, and the entries present
  in the status bar, each with its content and id.\<close>

definition badges :: "fpv \<Rightarrow> (string \<times> nat) list" where
  "badges st = map snd (activities st)"

definition statusbarItems :: "fpv \<Rightarrow> (statusbar_entry \<times> string) list" where
  "statusbarItems st = map snd (statusbarEntries st)"

subsection \<open>A sample session\<close>

text \<open>
  Concrete values for the parameters, used where a statement is evaluated: a remote
  session over ssh, the address format \<open>host:port\<close> reduced to the port 3000, and a
  membership test that looks the address up in the forwarded map.
\<close>

definition sample_deps :: deps where
  "sample_deps =
     \<lparr>remoteAuthority = Some ''ssh-remote+box'',
      TUNNEL_VIEW_ID = ''~remote.forwardedPorts'',
      mapHasTunnelLocalhostOrAllInterfaces =
        (\<lambda>m h p. p = 3000 \<and> Mapping.lookup m (h @ '':3000'') \<noteq> None),
      MakeAddress = (\<lambda>h p. h @ '':3000''),
      ForwardPortAction_INLINE_ID = ''remote.tunnel.forwardInline'',
      OpenPortInBrowserAction_LABEL = ''Open in Browser''\<rparr>"

text \<open>Both the setting and the context key are on, nothing is forwarded, and every view
  container is found.\<close>

definition sample_env :: env where
  "sample_env =
     \<lparr>forwardedPortsViewEnabled = True, autoForwardPorts = True, forwarded = Mapping.empty,
      getViewContainerById = (\<lambda>i. Some i),
      getViewContainerByViewId = (\<lambda>i. Some VIEWLET_ID)\<rparr>"

definition sample_tunnel :: tunnel where
  "sample_tunnel =
     \<lparr>tunnelRemoteHost = ''localhost'', tunnelRemotePort = 3000,
      localAddress = ''localhost:3000''\<rparr>"

definition sample_url :: localUrl where
  "sample_url = \<lparr>host = ''localhost'', port = 3000\<rparr>"

text \<open>Variants of the sample answers: one port is forwarded; the tunnel view has no view
  container; the context key is off; the view container of the viewlet is not found.\<close>

definition env_forwarded :: env where
  "env_forwarded = sample_env\<lparr>forwarded := Mapping.update ''localhost:3000'' sample_tunnel Mapping.empty\<rparr>"

definition env_no_container :: env where
  "env_no_container = env_forwarded\<lparr>getViewContainerByViewId := (\<lambda>i. None)\<rparr>"

definition env_disabled :: env where
  "env_disabled = sample_env\<lparr>forwardedPortsViewEnabled := False\<rparr>"

definition env_no_viewlet :: env where
  "env_no_viewlet = sample_env\<lparr>getViewContainerById := (\<lambda>i. None)\<rparr>"

section \<open>Properties of AutomaticPortForwarding\<close>

lemmas apf_defs = apf_constructor_def apf_new_def newHandle_def register_def disposed_def
  onDidChangeConfiguration_def onDidChangeContext_def newUrlFinder_def
  subscribeMatchLocalUrl_def disposeContextListener_def disposeUrlFinder_def
  tryStartStopUrlFinder_def startUrlFinder_def stopUrlFinder_def

subsection \<open>The state after the constructor in the sample session\<close>

lemma sample_active:
  "apf_constructor sample_deps sample_env =
     \<lparr>nextHandle = 4, disposeCalls = [ContextListener 1],
      store = [ConfigurationListener 0, ContextListener 1, UrlFinder 2,
               MatchLocalUrlListener 3],
      contextListeners = [],
      contextServiceListener = Some 1, urlFinder = Some 2,
      configurationListeners = [0], urlFinders = [2], matchLocalUrlListeners = [(3, 2)],
      forwardCalls = [], awaiting = [], prompts = []\<rparr>"
  by (simp add: apf_defs truthy_def sample_deps_def sample_env_def)

subsection \<open>The invariant of the controller\<close>

lemma removeAll_only:
  "\<forall>h \<in> set hs. x = h \<Longrightarrow> removeAll x hs = []"
  by (induction hs) simp_all

lemma filter_unused:
  "\<forall>lf \<in> set ls. snd lf < (n::nat) \<Longrightarrow> filter (\<lambda>lf. snd lf = n) ls = []"
  by (induction ls) auto

lemma apf_inv_newUrlFinder:
  assumes "apf_inv st"
  shows "apf_inv
    (st\<lparr>nextHandle := Suc (Suc (nextHandle st)),
        urlFinders := urlFinders st @ [nextHandle st],
        matchLocalUrlListeners :=
          matchLocalUrlListeners st @ [(Suc (nextHandle st), nextHandle st)],
        urlFinder := Some (nextHandle st),
        contextListeners := []\<rparr>)"
proof -
  from assms have below: "\<forall>f \<in> set (urlFinders st). f < nextHandle st"
    and lbelow: "\<forall>lf \<in> set (matchLocalUrlListeners st). snd lf < nextHandle st"
    and one: "\<forall>f \<in> set (urlFinders st).
         length (filter (\<lambda>lf. snd lf = f) (matchLocalUrlListeners st)) = 1"
    by (simp_all add: apf_inv_def)
  have new: "filter (\<lambda>lf. snd lf = nextHandle st) (matchLocalUrlListeners st) = []"
    using lbelow by (rule filter_unused)
  from below have old: "\<forall>f \<in> set (urlFinders st). nextHandle st \<noteq> f"
    by auto
  from below lbelow one new old show ?thesis
    by (auto simp: apf_inv_def less_Suc_eq)
qed

text \<open>The invariant reads only these fields.\<close>

lemma apf_inv_cong:
  "contextListeners st' = contextListeners st \<Longrightarrow>
   contextServiceListener st' = contextServiceListener st \<Longrightarrow>
   urlFinder st' = urlFinder st \<Longrightarrow> urlFinders st' = urlFinders st \<Longrightarrow>
   matchLocalUrlListeners st' = matchLocalUrlListeners st \<Longrightarrow>
   nextHandle st' = nextHandle st \<Longrightarrow> apf_inv st' = apf_inv st"
  by (simp add: apf_inv_def)

lemma startUrlFinder_fields:
  assumes "urlFinder st \<noteq> None \<or> forwardedPortsViewEnabled e"
  shows "nextHandle (startUrlFinder e st) = Suc (Suc (nextHandle st))"
    and "urlFinders (startUrlFinder e st) = urlFinders st @ [nextHandle st]"
    and "matchLocalUrlListeners (startUrlFinder e st) =
       matchLocalUrlListeners st @ [(Suc (nextHandle st), nextHandle st)]"
    and "urlFinder (startUrlFinder e st) = Some (nextHandle st)"
    and "contextServiceListener (startUrlFinder e st) = contextServiceListener st"
    and "contextListeners (startUrlFinder e st) =
       (case contextServiceListener st of
          Some h \<Rightarrow> removeAll h (contextListeners st)
        | None \<Rightarrow> contextListeners st)"
  using assms
  by (auto simp: startUrlFinder_def newUrlFinder_def subscribeMatchLocalUrl_def newHandle_def
      disposeContextListener_def disposed_def register_def split: option.splits)

lemma apf_inv_startUrlFinder:
  assumes "apf_inv st"
  shows "apf_inv (startUrlFinder e st)"
proof (cases "urlFinder st \<noteq> None \<or> forwardedPortsViewEnabled e")
  case False
  with assms show ?thesis by (simp add: startUrlFinder_def)
next
  case True
  from assms have own: "\<forall>h \<in> set (contextListeners st). contextServiceListener st = Some h"
    by (simp add: apf_inv_def)
  have gone: "contextListeners (startUrlFinder e st) = []"
  proof (cases "contextServiceListener st")
    case None
    with own have "set (contextListeners st) = {}" by auto
    with None show ?thesis
      by (simp add: startUrlFinder_fields [OF True])
  next
    case (Some h)
    with own have "removeAll h (contextListeners st) = []"
      by (intro removeAll_only) auto
    with Some show ?thesis
      by (simp add: startUrlFinder_fields [OF True])
  qed
  have "apf_inv (startUrlFinder e st) =
     apf_inv (st\<lparr>nextHandle := Suc (Suc (nextHandle st)),
        urlFinders := urlFinders st @ [nextHandle st],
        matchLocalUrlListeners :=
          matchLocalUrlListeners st @ [(Suc (nextHandle st), nextHandle st)],
        urlFinder := Some (nextHandle st),
        contextListeners := []\<rparr>)"
    by (rule apf_inv_cong) (simp_all add: startUrlFinder_fields(1-5) [OF True] gone)
  with apf_inv_newUrlFinder [OF assms] show ?thesis by simp
qed

lemma apf_inv_stopUrlFinder: "apf_inv st \<Longrightarrow> apf_inv (stopUrlFinder st)"
  by (auto simp: apf_inv_def stopUrlFinder_def disposeUrlFinder_def disposed_def
      split: option.splits)

lemma apf_inv_tryStartStopUrlFinder: "apf_inv st \<Longrightarrow> apf_inv (tryStartStopUrlFinder e st)"
  by (simp add: tryStartStopUrlFinder_def apf_inv_startUrlFinder apf_inv_stopUrlFinder)

lemma apf_inv_onDidMatchLocalUrl: "apf_inv st \<Longrightarrow> apf_inv (onDidMatchLocalUrl d e u st)"
  by (simp add: apf_inv_def onDidMatchLocalUrl_def)

lemma apf_inv_fold_tryStartStop:
  "apf_inv st \<Longrightarrow> apf_inv (fold (\<lambda>h s. if a then tryStartStopUrlFinder e s else s) hs st)"
  by (induction hs arbitrary: st) (simp_all add: apf_inv_tryStartStopUrlFinder)

lemma apf_inv_fold_match:
  "apf_inv st \<Longrightarrow> apf_inv (fold (\<lambda>l s. onDidMatchLocalUrl d e u s) ls st)"
  by (induction ls arbitrary: st) (simp_all add: apf_inv_onDidMatchLocalUrl)

lemma apf_inv_afterForward: "apf_inv st \<Longrightarrow> apf_inv (afterForward d r st)"
  by (auto simp: apf_inv_def afterForward_def split: settled.splits option.splits)

lemma apf_inv_step: "apf_inv st \<Longrightarrow> apf_inv (apf_step d e ev st)"
proof (cases ev)
  case (ForwardSettled i r)
  assume inv: "apf_inv st"
  then have "apf_inv (st\<lparr>awaiting := take i (awaiting st) @ drop (Suc i) (awaiting st)\<rparr>)"
    by (simp add: apf_inv_def)
  with inv ForwardSettled show ?thesis
    by (simp add: apf_inv_afterForward)
qed (simp_all add: apf_inv_fold_tryStartStop apf_inv_fold_match)

lemma apf_inv_run: "apf_inv st \<Longrightarrow> apf_inv (apf_run d tr st)"
  by (induction d tr st rule: apf_run.induct) (simp_all add: apf_inv_step)

lemma apf_inv_constructor: "apf_inv (apf_constructor d e)"
proof (cases "truthy (remoteAuthority d)")
  case True
  have "apf_inv (apf_new\<lparr>nextHandle := Suc (Suc 0), 
      store := [ConfigurationListener 0, ContextListener (Suc 0)],
      contextListeners := [Suc 0], contextServiceListener := Some (Suc 0),
      configurationListeners := [0]\<rparr>)"
    by (simp add: apf_inv_def apf_new_def)
  then have "apf_inv (tryStartStopUrlFinder e (apf_new\<lparr>nextHandle := Suc (Suc 0), 
      store := [ConfigurationListener 0, ContextListener (Suc 0)],
      contextListeners := [Suc 0], contextServiceListener := Some (Suc 0),
      configurationListeners := [0]\<rparr>))"
    by (rule apf_inv_tryStartStopUrlFinder)
  with True show ?thesis
    by (simp add: apf_constructor_def onDidChangeConfiguration_def onDidChangeContext_def
        newHandle_def register_def apf_new_def)
next
  case False
  then show ?thesis
    by (simp add: apf_constructor_def onDidChangeConfiguration_def newHandle_def
        register_def apf_new_def apf_inv_def)
qed

lemma apf_inv_reachable: "apf_inv (apf_run d tr (apf_constructor d e0))"
  by (simp add: apf_inv_run apf_inv_constructor)

subsection \<open>Delivery of a detected local URL\<close>

lemma fold_match_covered:
  "mapHasTunnelLocalhostOrAllInterfaces d (forwarded e) (host u) (port u) \<Longrightarrow>
   fold (\<lambda>l s. onDidMatchLocalUrl d e u s) ls st = st"
  by (induction ls arbitrary: st) (simp_all add: onDidMatchLocalUrl_def)

lemma fold_match_forward:
  "\<not> mapHasTunnelLocalhostOrAllInterfaces d (forwarded e) (host u) (port u) \<Longrightarrow>
   fold (\<lambda>l s. onDidMatchLocalUrl d e u s) ls st =
     st\<lparr>forwardCalls := forwardCalls st @ replicate (length ls) u,
        awaiting := awaiting st @ replicate (length ls) u\<rparr>"
proof (induction ls arbitrary: st)
  case Nil
  show ?case by simp
next
  case (Cons l ls)
  then show ?case
    by (simp add: onDidMatchLocalUrl_def replicate_append_same)
qed

lemma one_listener_reachable:
  assumes "f \<in> set (urlFinders (apf_run d tr (apf_constructor d e0)))"
  shows "length (matchListeners f (apf_run d tr (apf_constructor d e0))) = 1"
proof -
  have "apf_inv (apf_run d tr (apf_constructor d e0))"
    by (rule apf_inv_reachable)
  with assms show ?thesis
    by (simp add: apf_inv_def matchListeners_def)
qed

text \<open>
  Claim C1. The callback of a detected local URL calls
  \<open>remoteExplorerService.forward\<close> if and only if
  \<open>mapHasTunnelLocalhostOrAllInterfaces\<close> answers false for the forwarded map and the
  host and port of the URL (the predicate itself is a parameter). When it answers
  true, the callback and the whole delivery of the event leave the state as it is; when
  it answers false, the delivery issues one forward request of that URL for each
  listener of the scanner that fired. In every state the controller reaches from its
  constructor a live scanner has one listener, so a URL it detects is forwarded exactly
  once when it is not covered and not at all when it is.
\<close>

theorem forward_iff_not_covered:
  "(forwardCalls (onDidMatchLocalUrl d e u st) = forwardCalls st @ [u]) =
     (\<not> mapHasTunnelLocalhostOrAllInterfaces d (forwarded e) (host u) (port u)) \<and>
   (forwardCalls (onDidMatchLocalUrl d e u st) = forwardCalls st) =
     mapHasTunnelLocalhostOrAllInterfaces d (forwarded e) (host u) (port u) \<and>
   (mapHasTunnelLocalhostOrAllInterfaces d (forwarded e) (host u) (port u) \<longrightarrow>
      onDidMatchLocalUrl d e u st = st \<and> apf_step d e (MatchedLocalUrl f u) st = st) \<and>
   (\<not> mapHasTunnelLocalhostOrAllInterfaces d (forwarded e) (host u) (port u) \<longrightarrow>
      forwardCalls (apf_step d e (MatchedLocalUrl f u) st) =
        forwardCalls st @ replicate (length (matchListeners f st)) u) \<and>
   (f \<in> set (urlFinders (apf_run d tr (apf_constructor d e0))) \<longrightarrow>
      forwardCalls (apf_step d e (MatchedLocalUrl f u) (apf_run d tr (apf_constructor d e0))) =
        forwardCalls (apf_run d tr (apf_constructor d e0)) @
          (if mapHasTunnelLocalhostOrAllInterfaces d (forwarded e) (host u) (port u)
           then [] else [u]))"
  by (simp add: onDidMatchLocalUrl_def fold_match_covered fold_match_forward
      one_listener_reachable)

theorem forward_iff_not_covered_witness:
  "\<not> mapHasTunnelLocalhostOrAllInterfaces sample_deps (forwarded sample_env)
       (host sample_url) (port sample_url) \<and>
   2 \<in> set (urlFinders (apf_run sample_deps [] (apf_constructor sample_deps sample_env))) \<and>
   forwardCalls (apf_step sample_deps sample_env (MatchedLocalUrl 2 sample_url)
       (apf_run sample_deps [] (apf_constructor sample_deps sample_env))) = [sample_url] \<and>
   mapHasTunnelLocalhostOrAllInterfaces sample_deps (forwarded env_forwarded)
       (host sample_url) (port sample_url) \<and>
   apf_step sample_deps env_forwarded (MatchedLocalUrl 2 sample_url)
       (apf_constructor sample_deps sample_env) =
     apf_constructor sample_deps sample_env"
proof -
  have free: "\<not> mapHasTunnelLocalhostOrAllInterfaces sample_deps (forwarded sample_env)
       (host sample_url) (port sample_url)"
    by (simp add: sample_deps_def sample_env_def sample_url_def)
  have covered: "mapHasTunnelLocalhostOrAllInterfaces sample_deps (forwarded env_forwarded)
       (host sample_url) (port sample_url)"
    by (simp add: sample_deps_def sample_env_def sample_url_def env_forwarded_def)
  have live: "2 \<in> set (urlFinders (apf_run sample_deps []
       (apf_constructor sample_deps sample_env)))"
    by (simp add: sample_active)
  have none: "forwardCalls (apf_run sample_deps []
       (apf_constructor sample_deps sample_env)) = []"
    by (simp add: sample_active)
  have "forwardCalls (apf_step sample_deps sample_env (MatchedLocalUrl 2 sample_url)
       (apf_run sample_deps [] (apf_constructor sample_deps sample_env))) =
     forwardCalls (apf_run sample_deps [] (apf_constructor sample_deps sample_env)) @
       (if mapHasTunnelLocalhostOrAllInterfaces sample_deps (forwarded sample_env)
             (host sample_url) (port sample_url)
        then [] else [sample_url])"
    using forward_iff_not_covered [of sample_deps sample_env sample_url
        "apf_constructor sample_deps sample_env" 2 "[]" sample_env] live
    by blast
  with free none
  have once: "forwardCalls (apf_step sample_deps sample_env (MatchedLocalUrl 2 sample_url)
       (apf_run sample_deps [] (apf_constructor sample_deps sample_env))) = [sample_url]"
    by simp
  have "apf_step sample_deps env_forwarded (MatchedLocalUrl 2 sample_url)
       (apf_constructor sample_deps sample_env) =
     apf_constructor sample_deps sample_env"
    using forward_iff_not_covered [of sample_deps env_forwarded sample_url
        "apf_constructor sample_deps sample_env" 2 "[]" sample_env] covered
    by blast
  with free live once covered show ?thesis
    by blast
qed

subsection \<open>The continuation of a forward request\<close>

lemma sample_matched:
  "apf_step sample_deps sample_env (MatchedLocalUrl 2 sample_url)
       (apf_constructor sample_deps sample_env) =
     (apf_constructor sample_deps sample_env)
       \<lparr>forwardCalls := [sample_url], awaiting := [sample_url]\<rparr>"
  by (simp add: sample_active matchListeners_def onDidMatchLocalUrl_def)
     (simp add: sample_deps_def sample_env_def sample_url_def)

text \<open>
  Claim C7. When the forward request resolves to no entry, the continuation leaves the
  state as it is: no notification is shown and nothing else is reported. The same holds
  when the request is rejected. A notification is added exactly when the request
  resolves to an entry, and then it is the one prompt built from that entry. At the
  level of events, settling a pending request with no entry leaves the notifications
  as they are.
\<close>

theorem failed_forward_is_silent:
  "afterForward d (Fulfilled None) st = st \<and>
   afterForward d Rejected st = st \<and>
   prompts (apf_step d e (ForwardSettled i (Fulfilled None)) st) = prompts st \<and>
   (prompts (afterForward d r st) \<noteq> prompts st) = (\<exists>fwd. r = Fulfilled (Some fwd)) \<and>
   prompts (afterForward d (Fulfilled (Some fwd)) st) =
     prompts st @ [automaticForward_prompt d fwd] \<and>
   prompts (apf_step d e (ForwardSettled i (Fulfilled (Some fwd))) st) =
     (if i < length (awaiting st) then prompts st @ [automaticForward_prompt d fwd]
      else prompts st)"
  by (auto simp: afterForward_def split: settled.splits option.splits)

theorem failed_forward_is_silent_witness:
  "awaiting (apf_step sample_deps sample_env (MatchedLocalUrl 2 sample_url)
       (apf_constructor sample_deps sample_env)) = [sample_url] \<and>
   prompts (apf_step sample_deps sample_env (ForwardSettled 0 (Fulfilled None))
     (apf_step sample_deps sample_env (MatchedLocalUrl 2 sample_url)
       (apf_constructor sample_deps sample_env))) = [] \<and>
   prompts (apf_step sample_deps sample_env (ForwardSettled 0 (Fulfilled (Some sample_tunnel)))
     (apf_step sample_deps sample_env (MatchedLocalUrl 2 sample_url)
       (apf_constructor sample_deps sample_env))) =
     [\<lparr>prompt_severity = Info,
       message = ''localhost:3000 from the remote has been forwarded to localhost:3000 locally.'',
       choices = [BrowserChoice ''Open in Browser'' ''localhost:3000'',
                  ShowChoice ''Show Forwarded Ports''],
       neverShowAgain = (''remote.tunnelsView.autoForwardNeverShow'', True)\<rparr>]"
proof -
  have p: "automaticForward_prompt sample_deps sample_tunnel =
     \<lparr>prompt_severity = Info,
       message = ''localhost:3000 from the remote has been forwarded to localhost:3000 locally.'',
       choices = [BrowserChoice ''Open in Browser'' ''localhost:3000'',
                  ShowChoice ''Show Forwarded Ports''],
       neverShowAgain = (''remote.tunnelsView.autoForwardNeverShow'', True)\<rparr>"
    by (simp add: automaticForward_prompt_def automaticForward_message_def
        sample_deps_def sample_tunnel_def)
  have aw: "awaiting ((apf_constructor sample_deps sample_env)
       \<lparr>forwardCalls := [sample_url], awaiting := [sample_url]\<rparr>) = [sample_url]"
    by simp
  have pr: "prompts ((apf_constructor sample_deps sample_env)
       \<lparr>forwardCalls := [sample_url], awaiting := [sample_url]\<rparr>) = []"
    by (simp add: sample_active)
  have "prompts (apf_step sample_deps sample_env (ForwardSettled 0 (Fulfilled None))
          ((apf_constructor sample_deps sample_env)
             \<lparr>forwardCalls := [sample_url], awaiting := [sample_url]\<rparr>)) =
        prompts ((apf_constructor sample_deps sample_env)
             \<lparr>forwardCalls := [sample_url], awaiting := [sample_url]\<rparr>) \<and>
        prompts (apf_step sample_deps sample_env (ForwardSettled 0 (Fulfilled (Some sample_tunnel)))
          ((apf_constructor sample_deps sample_env)
             \<lparr>forwardCalls := [sample_url], awaiting := [sample_url]\<rparr>)) =
        (if 0 < length (awaiting ((apf_constructor sample_deps sample_env)
             \<lparr>forwardCalls := [sample_url], awaiting := [sample_url]\<rparr>))
         then prompts ((apf_constructor sample_deps sample_env)
             \<lparr>forwardCalls := [sample_url], awaiting := [sample_url]\<rparr>) @
              [automaticForward_prompt sample_deps sample_tunnel]
         else prompts ((apf_constructor sample_deps sample_env)
             \<lparr>forwardCalls := [sample_url], awaiting := [sample_url]\<rparr>))"
    using failed_forward_is_silent [of sample_deps
        "(apf_constructor sample_deps sample_env)
           \<lparr>forwardCalls := [sample_url], awaiting := [sample_url]\<rparr>"
        sample_env 0 "Fulfilled None" sample_tunnel]
    by blast
  then show ?thesis
    unfolding sample_matched aw pr p by simp
qed

subsection \<open>Stopping the scanner\<close>

text \<open>
  Claim C8. Stopping the scanner while it is already stopped is a no-op: when
  \<open>urlFinder\<close> is undefined, \<open>stopUrlFinder\<close> returns the state as it is, so nothing
  is disposed. When a scanner exists, \<open>stopUrlFinder\<close> calls its \<open>dispose\<close> once (the
  log of dispose calls grows by exactly that one call), the scanner is no longer among
  the live ones, no other scanner is touched, and the reference is cleared. Hence a
  second stop changes nothing.
\<close>

theorem stopUrlFinder_idempotent:
  "(urlFinder st = None \<longrightarrow> stopUrlFinder st = st) \<and>
   (\<forall>f. urlFinder st = Some f \<longrightarrow>
      disposeCalls (stopUrlFinder st) = disposeCalls st @ [UrlFinder f] \<and>
      urlFinders (stopUrlFinder st) = removeAll f (urlFinders st) \<and>
      f \<notin> set (urlFinders (stopUrlFinder st)) \<and>
      urlFinder (stopUrlFinder st) = None) \<and>
   stopUrlFinder (stopUrlFinder st) = stopUrlFinder st"
  by (auto simp: stopUrlFinder_def disposeUrlFinder_def disposed_def split: option.splits)

theorem stopUrlFinder_idempotent_witness:
  "urlFinder (apf_constructor sample_deps sample_env) = Some 2 \<and>
   urlFinders (apf_constructor sample_deps sample_env) = [2] \<and>
   disposeCalls (stopUrlFinder (apf_constructor sample_deps sample_env)) =
     [ContextListener 1, UrlFinder 2] \<and>
   urlFinders (stopUrlFinder (apf_constructor sample_deps sample_env)) = [] \<and>
   urlFinder (stopUrlFinder (apf_constructor sample_deps sample_env)) = None \<and>
   stopUrlFinder (stopUrlFinder (apf_constructor sample_deps sample_env)) =
     stopUrlFinder (apf_constructor sample_deps sample_env)"
proof -
  have a: "urlFinder (apf_constructor sample_deps sample_env) = Some 2"
    by (simp add: sample_active)
  have b: "urlFinders (apf_constructor sample_deps sample_env) = [2]"
    by (simp add: sample_active)
  have c: "disposeCalls (apf_constructor sample_deps sample_env) = [ContextListener 1]"
    by (simp add: sample_active)
  have "disposeCalls (stopUrlFinder (apf_constructor sample_deps sample_env)) =
          disposeCalls (apf_constructor sample_deps sample_env) @ [UrlFinder 2] \<and>
        urlFinders (stopUrlFinder (apf_constructor sample_deps sample_env)) =
          removeAll 2 (urlFinders (apf_constructor sample_deps sample_env)) \<and>
        urlFinder (stopUrlFinder (apf_constructor sample_deps sample_env)) = None \<and>
        stopUrlFinder (stopUrlFinder (apf_constructor sample_deps sample_env)) =
          stopUrlFinder (apf_constructor sample_deps sample_env)"
    using stopUrlFinder_idempotent [of "apf_constructor sample_deps sample_env"] a
    by blast
  with a b c show ?thesis
    by simp
qed

subsection \<open>A change of the capability flag while a scanner exists\<close>

text \<open>
  Claim C3, as stated, fails. In the sample session the constructor starts the scanner
  (handle 2) and \<open>startUrlFinder\<close> disposes the context listener. When the
  capability flag then changes to false, the scanner is still referenced and live, and
  no context listener is attached.
\<close>

theorem capability_off_stops_scanner_counterexample:
  "urlFinder (apf_constructor sample_deps sample_env) = Some 2 \<and>
   \<not> forwardedPortsViewEnabled (sample_env\<lparr>forwardedPortsViewEnabled := False\<rparr>) \<and>
   urlFinder (apf_step sample_deps (sample_env\<lparr>forwardedPortsViewEnabled := False\<rparr>)
       (ContextChanged True) (apf_constructor sample_deps sample_env)) = Some 2 \<and>
   urlFinders (apf_step sample_deps (sample_env\<lparr>forwardedPortsViewEnabled := False\<rparr>)
       (ContextChanged True) (apf_constructor sample_deps sample_env)) = [2] \<and>
   contextListeners (apf_step sample_deps (sample_env\<lparr>forwardedPortsViewEnabled := False\<rparr>)
       (ContextChanged True) (apf_constructor sample_deps sample_env)) = []"
  by (simp add: sample_active)

text \<open>
  Claim C3, amended. In every state the controller reaches from its constructor, while
  a scanner exists (\<open>urlFinder\<close> is set) no context listener is attached:
  \<open>startUrlFinder\<close> disposed it and nothing attaches one again. A change of the
  capability flag, to false or to true, therefore reaches no callback and leaves the
  whole state, scanner included, as it is.
\<close>

theorem capability_change_unheard_while_active:
  "urlFinder (apf_run d tr (apf_constructor d e0)) \<noteq> None \<Longrightarrow>
   contextListeners (apf_run d tr (apf_constructor d e0)) = [] \<and>
   apf_step d e (ContextChanged a) (apf_run d tr (apf_constructor d e0)) =
     apf_run d tr (apf_constructor d e0)"
proof -
  assume active: "urlFinder (apf_run d tr (apf_constructor d e0)) \<noteq> None"
  have "apf_inv (apf_run d tr (apf_constructor d e0))"
    by (rule apf_inv_reachable)
  with active have "contextListeners (apf_run d tr (apf_constructor d e0)) = []"
    by (simp add: apf_inv_def)
  then show ?thesis by simp
qed

theorem capability_change_unheard_while_active_witness:
  "urlFinder (apf_run sample_deps [(sample_env, MatchedLocalUrl 2 sample_url)]
       (apf_constructor sample_deps sample_env)) \<noteq> None \<and>
   contextListeners
     (apf_run sample_deps [(sample_env, MatchedLocalUrl 2 sample_url)]
       (apf_constructor sample_deps sample_env)) = [] \<and>
   apf_step sample_deps (sample_env\<lparr>forwardedPortsViewEnabled := False\<rparr>) (ContextChanged True)
     (apf_run sample_deps [(sample_env, MatchedLocalUrl 2 sample_url)]
       (apf_constructor sample_deps sample_env)) =
     apf_run sample_deps [(sample_env, MatchedLocalUrl 2 sample_url)]
       (apf_constructor sample_deps sample_env)"
proof -
  have "apf_run sample_deps [(sample_env, MatchedLocalUrl 2 sample_url)]
       (apf_constructor sample_deps sample_env) =
     (apf_constructor sample_deps sample_env)
       \<lparr>forwardCalls := [sample_url], awaiting := [sample_url]\<rparr>"
    by (simp only: apf_run.simps sample_matched)
  then have active: "urlFinder (apf_run sample_deps [(sample_env, MatchedLocalUrl 2 sample_url)]
       (apf_constructor sample_deps sample_env)) \<noteq> None"
    by (simp add: sample_active)
  show ?thesis
    using active capability_change_unheard_while_active [OF active,
        of "sample_env\<lparr>forwardedPortsViewEnabled := False\<rparr>" True]
    by blast
qed

subsection \<open>Starting while a scanner exists\<close>

text \<open>
  Claim C2 at a failing input. In the sample session the constructor has started the
  scanner with handle 2 and its listener 3. A configuration change with the setting
  still on calls \<open>startUrlFinder\<close> again: the guard lets it pass because a scanner
  exists, so a second scanner (4) and a second listener (5) are created and the first
  scanner is neither disposed nor referenced any more. When the setting is then turned
  off, only scanner 4 is disposed, and a URL detected by scanner 2 is still forwarded.
\<close>

theorem second_start_creates_second_scanner:
  "urlFinder (apf_constructor sample_deps sample_env) = Some 2 \<and>
   urlFinders (apf_constructor sample_deps sample_env) = [2] \<and>
   matchLocalUrlListeners (apf_constructor sample_deps sample_env) = [(3, 2)] \<and>
   startUrlFinder sample_env (apf_constructor sample_deps sample_env) \<noteq>
     apf_constructor sample_deps sample_env \<and>
   apf_step sample_deps sample_env (ConfigurationChanged True)
       (apf_constructor sample_deps sample_env) =
     startUrlFinder sample_env (apf_constructor sample_deps sample_env) \<and>
   urlFinder (startUrlFinder sample_env (apf_constructor sample_deps sample_env)) = Some 4 \<and>
   urlFinders (startUrlFinder sample_env (apf_constructor sample_deps sample_env)) = [2, 4] \<and>
   matchLocalUrlListeners (startUrlFinder sample_env (apf_constructor sample_deps sample_env)) =
     [(3, 2), (5, 4)] \<and>
   urlFinders
     (apf_run sample_deps
        [(sample_env, ConfigurationChanged True),
         (sample_env\<lparr>autoForwardPorts := False\<rparr>, ConfigurationChanged True)]
        (apf_constructor sample_deps sample_env)) = [2] \<and>
   forwardCalls
     (apf_run sample_deps
        [(sample_env, ConfigurationChanged True),
         (sample_env\<lparr>autoForwardPorts := False\<rparr>, ConfigurationChanged True),
         (sample_env\<lparr>autoForwardPorts := False\<rparr>, MatchedLocalUrl 2 sample_url)]
        (apf_constructor sample_deps sample_env)) = [sample_url]"
  by (simp add: sample_active tryStartStopUrlFinder_def startUrlFinder_def stopUrlFinder_def
      newUrlFinder_def subscribeMatchLocalUrl_def newHandle_def disposeContextListener_def
      disposeUrlFinder_def disposed_def register_def matchListeners_def
      onDidMatchLocalUrl_def)
     (simp add: sample_deps_def sample_env_def sample_url_def)

subsection \<open>Starting while the capability flag is off\<close>

text \<open>
  Claim C6 at a failing input. In the sample session the scanner with handle 2 runs.
  The capability flag turns false and a configuration change arrives with the setting
  still on: the start path is taken with the flag false, and a scanner (4) is created.
  With no scanner in the field, the same call creates none.
\<close>

theorem start_with_capability_off_creates_scanner:
  "autoForwardPorts (sample_env\<lparr>forwardedPortsViewEnabled := False\<rparr>) \<and>
   \<not> forwardedPortsViewEnabled (sample_env\<lparr>forwardedPortsViewEnabled := False\<rparr>) \<and>
   urlFinders (apf_constructor sample_deps sample_env) = [2] \<and>
   urlFinders
     (tryStartStopUrlFinder (sample_env\<lparr>forwardedPortsViewEnabled := False\<rparr>)
        (apf_constructor sample_deps sample_env)) = [2, 4] \<and>
   urlFinders
     (apf_step sample_deps (sample_env\<lparr>forwardedPortsViewEnabled := False\<rparr>)
        (ConfigurationChanged True) (apf_constructor sample_deps sample_env)) = [2, 4] \<and>
   urlFinders
     (tryStartStopUrlFinder (sample_env\<lparr>forwardedPortsViewEnabled := False\<rparr>)
        (stopUrlFinder (apf_constructor sample_deps sample_env))) = []"
  by (simp add: sample_active tryStartStopUrlFinder_def startUrlFinder_def stopUrlFinder_def
      newUrlFinder_def subscribeMatchLocalUrl_def newHandle_def disposeContextListener_def
      disposeUrlFinder_def disposed_def register_def)
     (simp add: sample_env_def)

section \<open>Properties of ForwardedPortsView\<close>

subsection \<open>The invariant of the controller\<close>

lemma filter_only:
  "\<forall>b \<in> set bs. fst b = h \<Longrightarrow> filter (\<lambda>b. fst b \<noteq> h) bs = []"
  by (induction bs) simp_all

lemma activities_updateActivityBadge:
  assumes "\<forall>b \<in> set (activities st). activityBadge st = Some (fst b)"
  shows "activities (updateActivityBadge d e st) =
     (case getViewContainerByViewId e (TUNNEL_VIEW_ID d) of
        Some vc \<Rightarrow>
          if 0 < size_forwarded e then [(nextHandle st, vc, size_forwarded e)] else []
      | None \<Rightarrow> [])"
proof (cases "activityBadge st")
  case None
  have "activities st = []"
  proof (cases "activities st")
    case (Cons b bs)
    with assms have "activityBadge st = Some (fst b)" by simp
    with None show ?thesis by simp
  qed simp
  with None show ?thesis
    by (simp add: updateActivityBadge_def showViewContainerActivity_def newHandle_def
        Let_def split: option.splits)
next
  case (Some h)
  with assms have "filter (\<lambda>b. fst b \<noteq> h) (activities st) = []"
    by (intro filter_only) auto
  with Some show ?thesis
    by (simp add: updateActivityBadge_def showViewContainerActivity_def newHandle_def
        disposeActivity_def disposed_def Let_def split: option.splits)
qed

lemma others_updateActivityBadge:
  "statusbarEntries (updateActivityBadge d e st) = statusbarEntries st \<and>
   entryAccessor (updateActivityBadge d e st) = entryAccessor st \<and>
   contextListeners (updateActivityBadge d e st) = contextListeners st \<and>
   contextKeyListener (updateActivityBadge d e st) = contextKeyListener st \<and>
   registerViewsCalls (updateActivityBadge d e st) = registerViewsCalls st \<and>
   forwardPortListeners (updateActivityBadge d e st) = forwardPortListeners st \<and>
   closePortListeners (updateActivityBadge d e st) = closePortListeners st \<and>
   viewsRegisteredListeners (updateActivityBadge d e st) = viewsRegisteredListeners st"
  by (simp add: updateActivityBadge_def showViewContainerActivity_def newHandle_def
      disposeActivity_def disposed_def Let_def split: option.splits)

lemma activityBadge_updateActivityBadge:
  "getViewContainerByViewId e (TUNNEL_VIEW_ID d) = Some vc \<Longrightarrow> 0 < size_forwarded e \<Longrightarrow>
   activityBadge (updateActivityBadge d e st) = Some (nextHandle st)"
  by (simp add: updateActivityBadge_def showViewContainerActivity_def newHandle_def
      disposeActivity_def disposed_def Let_def split: option.splits)

lemma activityBadge_below_updateActivityBadge:
  "\<forall>h. activityBadge st = Some h \<longrightarrow> h < nextHandle st \<Longrightarrow>
   \<forall>h. activityBadge (updateActivityBadge d e st) = Some h \<longrightarrow>
      h < nextHandle (updateActivityBadge d e st)"
  by (auto simp: updateActivityBadge_def showViewContainerActivity_def newHandle_def
      disposeActivity_def disposed_def Let_def split: option.splits)

lemma owner_updateActivityBadge:
  assumes "\<forall>b \<in> set (activities st). activityBadge st = Some (fst b)"
  shows "\<forall>b \<in> set (activities (updateActivityBadge d e st)).
     activityBadge (updateActivityBadge d e st) = Some (fst b) \<and> fst b = nextHandle st"
proof (cases "getViewContainerByViewId e (TUNNEL_VIEW_ID d)")
  case None
  then show ?thesis
    by (simp add: activities_updateActivityBadge [OF assms])
next
  case (Some vc)
  show ?thesis
  proof (cases "0 < size_forwarded e")
    case True
    with Some show ?thesis
      by (simp add: activities_updateActivityBadge [OF assms]
          activityBadge_updateActivityBadge)
  next
    case False
    with Some show ?thesis
      by (simp add: activities_updateActivityBadge [OF assms])
  qed
qed

lemma fpv_inv_updateActivityBadge:
  assumes "fpv_inv d st"
  shows "fpv_inv d (updateActivityBadge d e st)"
proof -
  from assms have own: "\<forall>b \<in> set (activities st). activityBadge st = Some (fst b)"
    and old: "\<forall>h. activityBadge st = Some h \<longrightarrow> h < nextHandle st"
    by (simp_all add: fpv_inv_def)
  have "length (activities (updateActivityBadge d e st)) \<le> 1"
    by (simp add: activities_updateActivityBadge [OF own] split: option.splits)
  with assms owner_updateActivityBadge [OF own, of d e]
    activityBadge_below_updateActivityBadge [OF old, of d e]
  show ?thesis
    by (simp add: fpv_inv_def others_updateActivityBadge)
qed

lemma statusbarEntries_updateStatusBar:
  assumes "statusbarEntries st =
     (case entryAccessor st of None \<Rightarrow> [] | Some h \<Rightarrow> [(h, entry d, ''status.forwardedPorts'')])"
  shows "statusbarEntries (updateStatusBar d e st) =
       (case entryAccessor (updateStatusBar d e st) of
          None \<Rightarrow> []
        | Some h \<Rightarrow> [(h, entry d, ''status.forwardedPorts'')]) \<and>
     (entryAccessor (updateStatusBar d e st) \<noteq> None) = (0 < size_forwarded e)"
  using assms
  by (cases "entryAccessor st")
     (simp_all add: updateStatusBar_def addEntry_def newHandle_def register_def
        disposeEntry_def disposed_def)

lemma others_updateStatusBar:
  "activities (updateStatusBar d e st) = activities st \<and>
   activityBadge (updateStatusBar d e st) = activityBadge st \<and>
   nextHandle st \<le> nextHandle (updateStatusBar d e st) \<and>
   contextListeners (updateStatusBar d e st) = contextListeners st \<and>
   contextKeyListener (updateStatusBar d e st) = contextKeyListener st \<and>
   registerViewsCalls (updateStatusBar d e st) = registerViewsCalls st \<and>
   forwardPortListeners (updateStatusBar d e st) = forwardPortListeners st \<and>
   closePortListeners (updateStatusBar d e st) = closePortListeners st \<and>
   viewsRegisteredListeners (updateStatusBar d e st) = viewsRegisteredListeners st"
  by (simp add: updateStatusBar_def addEntry_def newHandle_def register_def
      disposeEntry_def disposed_def split: option.splits)

lemma fpv_inv_updateStatusBar:
  assumes "fpv_inv d st"
  shows "fpv_inv d (updateStatusBar d e st)"
proof -
  from assms have "statusbarEntries st =
     (case entryAccessor st of None \<Rightarrow> [] | Some h \<Rightarrow> [(h, entry d, ''status.forwardedPorts'')])"
    by (simp add: fpv_inv_def)
  from statusbarEntries_updateStatusBar [OF this, of e]
  have sb: "statusbarEntries (updateStatusBar d e st) =
       (case entryAccessor (updateStatusBar d e st) of
          None \<Rightarrow> []
        | Some h \<Rightarrow> [(h, entry d, ''status.forwardedPorts'')])"
    by simp
  from assms have "\<forall>h. activityBadge st = Some h \<longrightarrow> h < nextHandle st"
    by (simp add: fpv_inv_def)
  then have "\<forall>h. activityBadge st = Some h \<longrightarrow> h < nextHandle (updateStatusBar d e st)"
    using others_updateStatusBar [of d e st] by (meson less_le_trans)
  with assms sb show ?thesis
    by (simp add: fpv_inv_def others_updateStatusBar)
qed

lemma fpv_inv_onTunnelModelChange:
  "fpv_inv d st \<Longrightarrow> fpv_inv d (onTunnelModelChange d e st)"
  by (simp add: onTunnelModelChange_def fpv_inv_updateActivityBadge fpv_inv_updateStatusBar)

lemma fpv_inv_disposeViewsRegisteredListener:
  "fpv_inv d st \<Longrightarrow> fpv_inv d (disposeViewsRegisteredListener h st)"
proof -
  assume inv: "fpv_inv d st"
  then have l: "length (viewsRegisteredListeners st) \<le> 1"
    by (simp add: fpv_inv_def)
  have "length (removeAll h (viewsRegisteredListeners st)) \<le> 1"
    by (rule le_trans [OF length_removeAll_less_eq l])
  with inv show ?thesis
    by (simp add: fpv_inv_def disposeViewsRegisteredListener_def disposed_def)
qed

lemma fpv_inv_enableForwardedPortsView:
  "fpv_inv d st \<Longrightarrow> registerViewsCalls st = [] \<Longrightarrow>
   fpv_inv d (enableForwardedPortsView d e st)"
  by (auto simp: fpv_inv_def enableForwardedPortsView_def disposeContextListener_def
      disposed_def onDidChangeContext_def newHandle_def Let_def split: option.splits)

lemma step_ContextChanged:
  assumes "fpv_inv d st"
  shows "fpv_step d e (ContextChanged a) st =
     (if a \<and> contextKeyListener st \<noteq> None then enableForwardedPortsView d e st else st)"
proof -
  from assms have "contextListeners st =
      (case contextKeyListener st of None \<Rightarrow> [] | Some h \<Rightarrow> [h])"
    by (simp add: fpv_inv_def)
  then show ?thesis
    by (cases "contextKeyListener st") simp_all
qed

lemma step_PortForwarded:
  assumes "fpv_inv d st"
  shows "fpv_step d e PortForwarded st = onTunnelModelChange d e st"
proof -
  from assms have "length (forwardPortListeners st) = 1"
    by (simp add: fpv_inv_def)
  then obtain h where "forwardPortListeners st = [h]"
    by (cases "forwardPortListeners st") simp_all
  then show ?thesis by simp
qed

lemma step_PortClosed:
  assumes "fpv_inv d st"
  shows "fpv_step d e PortClosed st = onTunnelModelChange d e st"
proof -
  from assms have "length (closePortListeners st) = 1"
    by (simp add: fpv_inv_def)
  then obtain h where "closePortListeners st = [h]"
    by (cases "closePortListeners st") simp_all
  then show ?thesis by simp
qed

lemma fpv_inv_step:
  assumes "fpv_inv d st"
  shows "fpv_inv d (fpv_step d e ev st)"
proof (cases ev)
  case (ContextChanged a)
  from assms have "contextKeyListener st \<noteq> None \<longrightarrow> registerViewsCalls st = []"
    by (simp add: fpv_inv_def)
  with assms ContextChanged show ?thesis
    by (simp only: step_ContextChanged [OF assms])
       (simp add: fpv_inv_enableForwardedPortsView)
next
  case PortForwarded
  with assms show ?thesis
    by (simp only: step_PortForwarded [OF assms] fpv_inv_onTunnelModelChange)
next
  case PortClosed
  with assms show ?thesis
    by (simp only: step_PortClosed [OF assms] fpv_inv_onTunnelModelChange)
next
  case (ViewsRegistered vs)
  from assms have "length (viewsRegisteredListeners st) \<le> 1"
    by (simp add: fpv_inv_def)
  then consider "viewsRegisteredListeners st = []"
    | h where "viewsRegisteredListeners st = [h]"
    by (cases "viewsRegisteredListeners st") auto
  then show ?thesis
  proof cases
    case 1
    with assms ViewsRegistered show ?thesis by simp
  next
    case 2
    with assms ViewsRegistered show ?thesis
      by (simp add: onViewsRegistered_callback_def fpv_inv_onTunnelModelChange
          fpv_inv_disposeViewsRegisteredListener)
  qed
qed (simp_all add: assms)

lemma fpv_inv_run: "fpv_inv d st \<Longrightarrow> fpv_inv d (fpv_run d tr st)"
  by (induction d tr st rule: fpv_run.induct) (simp_all add: fpv_inv_step)

lemma fpv_constructor_unfold:
  "fpv_constructor d e =
     enableForwardedPortsView d e
       (fpv_new\<lparr>nextHandle := 4,
          store := [ViewWelcomeContent 0, ForwardPortListener 1, ClosePortListener 2],
          welcomeContents := [(0, TUNNEL_VIEW_ID d, welcomeContent d)],
          forwardPortListeners := [1], closePortListeners := [2],
          viewsRegisteredListeners := [3]\<rparr>)"
  by (simp add: fpv_constructor_def fpv_new_def registerViewWelcomeContent_def
      enableBadgeAndStatusBar_def onForwardPort_def onClosePort_def onViewsRegistered_def
      newHandle_def register_def eval_nat_numeral)

lemma fpv_inv_constructor: "fpv_inv d (fpv_constructor d e)"
  unfolding fpv_constructor_unfold
  by (rule fpv_inv_enableForwardedPortsView) (simp_all add: fpv_inv_def fpv_new_def)

lemma fpv_inv_reachable: "fpv_inv d (fpv_run d tr (fpv_constructor d e0))"
  by (simp add: fpv_inv_run fpv_inv_constructor)

subsection \<open>The state after the constructor in the sample session\<close>

lemma sample_view:
  "fpv_constructor sample_deps sample_env =
     fpv_new\<lparr>nextHandle := 4,
       store := [ViewWelcomeContent 0, ForwardPortListener 1, ClosePortListener 2],
       welcomeContents := [(0, TUNNEL_VIEW_ID sample_deps, welcomeContent sample_deps)],
       forwardPortListeners := [1], closePortListeners := [2],
       viewsRegisteredListeners := [3],
       registerViewsCalls := [VIEWLET_ID]\<rparr>"
  by (simp add: fpv_constructor_unfold enableForwardedPortsView_def fpv_new_def truthy_def
      sample_deps_def sample_env_def)

lemma sample_view_disabled:
  "fpv_constructor sample_deps env_disabled =
     fpv_new\<lparr>nextHandle := 5,
       store := [ViewWelcomeContent 0, ForwardPortListener 1, ClosePortListener 2],
       contextListeners := [4], contextKeyListener := Some 4,
       welcomeContents := [(0, TUNNEL_VIEW_ID sample_deps, welcomeContent sample_deps)],
       forwardPortListeners := [1], closePortListeners := [2],
       viewsRegisteredListeners := [3]\<rparr>"
  by (simp add: fpv_constructor_unfold enableForwardedPortsView_def fpv_new_def truthy_def
      onDidChangeContext_def newHandle_def sample_deps_def sample_env_def env_disabled_def)

lemma size_env_forwarded: "size_forwarded env_forwarded = 1"
  by (simp add: size_forwarded_def env_forwarded_def Mapping.size_def)

lemma size_env_no_container: "size_forwarded env_no_container = 1"
  by (simp add: size_forwarded_def env_no_container_def env_forwarded_def Mapping.size_def)

lemma size_sample_env: "size_forwarded sample_env = 0"
  by (simp add: size_forwarded_def sample_env_def)

lemma container_env_forwarded:
  "getViewContainerByViewId env_forwarded (TUNNEL_VIEW_ID sample_deps) = Some VIEWLET_ID"
  by (simp add: env_forwarded_def sample_env_def)

lemma container_env_no_container:
  "getViewContainerByViewId env_no_container (TUNNEL_VIEW_ID sample_deps) = None"
  by (simp add: env_no_container_def)

lemma sample_view_forwarded:
  "fpv_step sample_deps env_forwarded PortForwarded (fpv_constructor sample_deps sample_env) =
     fpv_new\<lparr>nextHandle := 6,
       store := [ViewWelcomeContent 0, ForwardPortListener 1, ClosePortListener 2,
                 StatusbarEntryAccessor 5],
       activityBadge := Some 4, entryAccessor := Some 5,
       welcomeContents := [(0, TUNNEL_VIEW_ID sample_deps, welcomeContent sample_deps)],
       forwardPortListeners := [1], closePortListeners := [2],
       viewsRegisteredListeners := [3],
       activities := [(4, VIEWLET_ID, 1)],
       statusbarEntries := [(5, entry sample_deps, ''status.forwardedPorts'')],
       registerViewsCalls := [VIEWLET_ID]\<rparr>"
  by (simp add: sample_view fpv_new_def onTunnelModelChange_def updateActivityBadge_def
      updateStatusBar_def showViewContainerActivity_def addEntry_def newHandle_def
      register_def size_env_forwarded container_env_forwarded)

subsection \<open>The activity badge\<close>

lemma activities_onTunnelModelChange:
  assumes "fpv_inv d st"
  shows "activities (onTunnelModelChange d e st) =
     (case getViewContainerByViewId e (TUNNEL_VIEW_ID d) of
        Some vc \<Rightarrow>
          if 0 < size_forwarded e then [(nextHandle st, vc, size_forwarded e)] else []
      | None \<Rightarrow> [])"
proof -
  from assms have "\<forall>b \<in> set (activities st). activityBadge st = Some (fst b)"
    by (simp add: fpv_inv_def)
  then show ?thesis
    by (simp add: onTunnelModelChange_def others_updateStatusBar
        activities_updateActivityBadge)
qed

lemma statusbarItems_onTunnelModelChange:
  assumes "fpv_inv d st"
  shows "statusbarItems (onTunnelModelChange d e st) =
     (if 0 < size_forwarded e then [(entry d, ''status.forwardedPorts'')] else [])"
proof -
  from assms have "fpv_inv d (updateActivityBadge d e st)"
    by (rule fpv_inv_updateActivityBadge)
  then have "statusbarEntries (updateActivityBadge d e st) =
     (case entryAccessor (updateActivityBadge d e st) of
        None \<Rightarrow> []
      | Some h \<Rightarrow> [(h, entry d, ''status.forwardedPorts'')])"
    by (simp add: fpv_inv_def)
  from statusbarEntries_updateStatusBar [OF this, of e]
  show ?thesis
    by (cases "entryAccessor (updateStatusBar d e (updateActivityBadge d e st))")
       (simp_all add: statusbarItems_def onTunnelModelChange_def)
qed

text \<open>
  Claim C4, as stated, fails. In the sample session one port is forwarded, so the size
  of the forwarded set is 1, but the tunnel view has no view container: after the
  notification no badge is shown, while the status bar entry is present.
\<close>

theorem badge_iff_nonempty_counterexample:
  "size_forwarded env_no_container = 1 \<and>
   badges (fpv_step sample_deps env_no_container PortForwarded
     (fpv_constructor sample_deps sample_env)) = [] \<and>
   statusbarItems (fpv_step sample_deps env_no_container PortForwarded
     (fpv_constructor sample_deps sample_env)) =
     [(entry sample_deps, ''status.forwardedPorts'')]"
  by (simp add: sample_view fpv_new_def onTunnelModelChange_def updateActivityBadge_def
      updateStatusBar_def addEntry_def newHandle_def register_def badges_def
      statusbarItems_def size_env_no_container container_env_no_container)

text \<open>
  Claim C4, amended. After every tunnel-model change notification (port forwarded or
  port closed), in any state the controller reaches from its constructor: one badge
  with the current size of the forwarded set is shown exactly when that size is
  greater than zero and the lookup of the tunnel view's view container succeeds, and
  no badge is shown otherwise; exactly one status bar entry is present when the size is
  greater than zero and none when it is zero. Repeated notifications therefore never
  leave more than one badge or more than one entry.
\<close>

theorem tunnel_change_syncs_badge_and_status:
  assumes "ev = PortForwarded \<or> ev = PortClosed"
  shows "badges (fpv_step d e ev (fpv_run d tr (fpv_constructor d e0))) =
       (case getViewContainerByViewId e (TUNNEL_VIEW_ID d) of
          Some vc \<Rightarrow> if 0 < size_forwarded e then [(vc, size_forwarded e)] else []
        | None \<Rightarrow> []) \<and>
     statusbarItems (fpv_step d e ev (fpv_run d tr (fpv_constructor d e0))) =
       (if 0 < size_forwarded e then [(entry d, ''status.forwardedPorts'')] else [])"
proof -
  have inv: "fpv_inv d (fpv_run d tr (fpv_constructor d e0))"
    by (rule fpv_inv_reachable)
  from assms have "fpv_step d e ev (fpv_run d tr (fpv_constructor d e0)) =
      onTunnelModelChange d e (fpv_run d tr (fpv_constructor d e0))"
    using step_PortForwarded [OF inv] step_PortClosed [OF inv] by auto
  then show ?thesis
    by (simp add: badges_def activities_onTunnelModelChange [OF inv]
        statusbarItems_onTunnelModelChange [OF inv] split: option.splits)
qed

theorem tunnel_change_syncs_badge_and_status_witness:
  "badges (fpv_step sample_deps env_forwarded PortForwarded
     (fpv_run sample_deps [] (fpv_constructor sample_deps sample_env))) = [(VIEWLET_ID, 1)] \<and>
   statusbarItems (fpv_step sample_deps env_forwarded PortForwarded
     (fpv_run sample_deps [] (fpv_constructor sample_deps sample_env))) =
     [(entry sample_deps, ''status.forwardedPorts'')] \<and>
   badges (fpv_step sample_deps sample_env PortClosed
     (fpv_run sample_deps [(env_forwarded, PortForwarded)]
        (fpv_constructor sample_deps sample_env))) = [] \<and>
   statusbarItems (fpv_step sample_deps sample_env PortClosed
     (fpv_run sample_deps [(env_forwarded, PortForwarded)]
        (fpv_constructor sample_deps sample_env))) = []"
  using tunnel_change_syncs_badge_and_status [of PortForwarded sample_deps env_forwarded "[]"
      sample_env]
    tunnel_change_syncs_badge_and_status [of PortClosed sample_deps sample_env
      "[(env_forwarded, PortForwarded)]" sample_env]
  by (simp add: size_env_forwarded size_sample_env container_env_forwarded
      split: option.splits)

text \<open>
  Claim C9. In every state the controller reaches from its constructor at most one
  activity badge is shown. An invocation of \<open>updateActivityBadge\<close> leaves at most one
  badge, and when a badge was shown before, it first calls \<open>dispose\<close> on it: the
  earlier badge is not among the badges shown afterwards.
\<close>

theorem at_most_one_activity_badge:
  "length (activities (fpv_run d tr (fpv_constructor d e0))) \<le> 1 \<and>
   length (activities (updateActivityBadge d e (fpv_run d tr (fpv_constructor d e0)))) \<le> 1 \<and>
   (\<forall>h. activityBadge (fpv_run d tr (fpv_constructor d e0)) = Some h \<longrightarrow>
      take (Suc (length (disposeCalls (fpv_run d tr (fpv_constructor d e0)))))
        (disposeCalls (updateActivityBadge d e (fpv_run d tr (fpv_constructor d e0)))) =
        disposeCalls (fpv_run d tr (fpv_constructor d e0)) @ [ViewContainerActivity h] \<and>
      h \<notin> fst ` set (activities (updateActivityBadge d e (fpv_run d tr (fpv_constructor d e0)))))"
proof -
  have inv: "fpv_inv d (fpv_run d tr (fpv_constructor d e0))"
    by (rule fpv_inv_reachable)
  then have own: "\<forall>b \<in> set (activities (fpv_run d tr (fpv_constructor d e0))).
      activityBadge (fpv_run d tr (fpv_constructor d e0)) = Some (fst b)"
    and old: "\<forall>h. activityBadge (fpv_run d tr (fpv_constructor d e0)) = Some h \<longrightarrow>
      h < nextHandle (fpv_run d tr (fpv_constructor d e0))"
    by (simp_all add: fpv_inv_def)
  from inv have one: "length (activities (fpv_run d tr (fpv_constructor d e0))) \<le> 1"
    by (simp add: fpv_inv_def)
  have two: "length (activities (updateActivityBadge d e
      (fpv_run d tr (fpv_constructor d e0)))) \<le> 1"
    by (simp add: activities_updateActivityBadge [OF own] split: option.splits)
  have three: "take (Suc (length (disposeCalls (fpv_run d tr (fpv_constructor d e0)))))
        (disposeCalls (updateActivityBadge d e (fpv_run d tr (fpv_constructor d e0)))) =
        disposeCalls (fpv_run d tr (fpv_constructor d e0)) @ [ViewContainerActivity h]"
    if "activityBadge (fpv_run d tr (fpv_constructor d e0)) = Some h" for h
    using that
    by (simp add: updateActivityBadge_def showViewContainerActivity_def newHandle_def
        disposeActivity_def disposed_def Let_def split: option.splits)
  have four: "h \<notin> fst ` set (activities (updateActivityBadge d e
      (fpv_run d tr (fpv_constructor d e0))))"
    if "activityBadge (fpv_run d tr (fpv_constructor d e0)) = Some h" for h
  proof
    assume "h \<in> fst ` set (activities (updateActivityBadge d e
      (fpv_run d tr (fpv_constructor d e0))))"
    then obtain b where "b \<in> set (activities (updateActivityBadge d e
      (fpv_run d tr (fpv_constructor d e0))))" and "fst b = h"
      by auto
    with owner_updateActivityBadge [OF own, of d e]
    have "h = nextHandle (fpv_run d tr (fpv_constructor d e0))"
      by auto
    with old that show False by simp
  qed
  from one two three four show ?thesis by blast
qed

theorem at_most_one_activity_badge_witness:
  "activityBadge (fpv_run sample_deps [(env_forwarded, PortForwarded)]
       (fpv_constructor sample_deps sample_env)) = Some 4 \<and>
   activities (fpv_run sample_deps [(env_forwarded, PortForwarded)]
       (fpv_constructor sample_deps sample_env)) = [(4, VIEWLET_ID, 1)] \<and>
   length (activities (updateActivityBadge sample_deps env_forwarded
     (fpv_run sample_deps [(env_forwarded, PortForwarded)]
       (fpv_constructor sample_deps sample_env)))) \<le> 1 \<and>
   take 1 (disposeCalls (updateActivityBadge sample_deps env_forwarded
     (fpv_run sample_deps [(env_forwarded, PortForwarded)]
       (fpv_constructor sample_deps sample_env)))) = [ViewContainerActivity 4] \<and>
   4 \<notin> fst ` set (activities (updateActivityBadge sample_deps env_forwarded
     (fpv_run sample_deps [(env_forwarded, PortForwarded)]
       (fpv_constructor sample_deps sample_env))))"
proof -
  have run: "fpv_run sample_deps [(env_forwarded, PortForwarded)]
       (fpv_constructor sample_deps sample_env) =
     fpv_step sample_deps env_forwarded PortForwarded (fpv_constructor sample_deps sample_env)"
    by simp
  have a: "activityBadge (fpv_run sample_deps [(env_forwarded, PortForwarded)]
       (fpv_constructor sample_deps sample_env)) = Some 4"
    unfolding run sample_view_forwarded by simp
  have b: "activities (fpv_run sample_deps [(env_forwarded, PortForwarded)]
       (fpv_constructor sample_deps sample_env)) = [(4, VIEWLET_ID, 1)]"
    unfolding run sample_view_forwarded by simp
  have c: "disposeCalls (fpv_run sample_deps [(env_forwarded, PortForwarded)]
       (fpv_constructor sample_deps sample_env)) = []"
    unfolding run sample_view_forwarded by (simp add: fpv_new_def)
  from at_most_one_activity_badge [of sample_deps "[(env_forwarded, PortForwarded)]"
      sample_env env_forwarded] a
  have "length (activities (updateActivityBadge sample_deps env_forwarded
     (fpv_run sample_deps [(env_forwarded, PortForwarded)]
       (fpv_constructor sample_deps sample_env)))) \<le> 1 \<and>
   take (Suc (length (disposeCalls (fpv_run sample_deps [(env_forwarded, PortForwarded)]
       (fpv_constructor sample_deps sample_env)))))
     (disposeCalls (updateActivityBadge sample_deps env_forwarded
       (fpv_run sample_deps [(env_forwarded, PortForwarded)]
         (fpv_constructor sample_deps sample_env)))) =
     disposeCalls (fpv_run sample_deps [(env_forwarded, PortForwarded)]
       (fpv_constructor sample_deps sample_env)) @ [ViewContainerActivity 4] \<and>
   4 \<notin> fst ` set (activities (updateActivityBadge sample_deps env_forwarded
     (fpv_run sample_deps [(env_forwarded, PortForwarded)]
       (fpv_constructor sample_deps sample_env))))"
    by blast
  with a b show ?thesis
    unfolding c by simp
qed

text \<open>
  Claim C10. Showing the badge depends on the lookup of the tunnel view's view
  container. In any state the controller reaches from its constructor, when
  \<open>getViewContainerByViewId\<close> returns nothing, \<open>updateActivityBadge\<close> and the whole
  tunnel-model notification leave no badge shown, whatever the size of the forwarded
  set, and the field keeps its value; when the lookup succeeds and the set is non-empty,
  the badge with the size of the set is shown.
\<close>

theorem badge_needs_view_container:
  "(getViewContainerByViewId e (TUNNEL_VIEW_ID d) = None \<longrightarrow>
      badges (updateActivityBadge d e (fpv_run d tr (fpv_constructor d e0))) = [] \<and>
      activityBadge (updateActivityBadge d e (fpv_run d tr (fpv_constructor d e0))) =
        activityBadge (fpv_run d tr (fpv_constructor d e0)) \<and>
      badges (fpv_step d e PortForwarded (fpv_run d tr (fpv_constructor d e0))) = []) \<and>
   (\<forall>vc. getViewContainerByViewId e (TUNNEL_VIEW_ID d) = Some vc \<and> 0 < size_forwarded e \<longrightarrow>
      badges (updateActivityBadge d e (fpv_run d tr (fpv_constructor d e0))) =
        [(vc, size_forwarded e)])"
proof -
  have inv: "fpv_inv d (fpv_run d tr (fpv_constructor d e0))"
    by (rule fpv_inv_reachable)
  then have own: "\<forall>b \<in> set (activities (fpv_run d tr (fpv_constructor d e0))).
      activityBadge (fpv_run d tr (fpv_constructor d e0)) = Some (fst b)"
    by (simp add: fpv_inv_def)
  have field: "activityBadge (updateActivityBadge d e (fpv_run d tr (fpv_constructor d e0))) =
        activityBadge (fpv_run d tr (fpv_constructor d e0))"
    if "getViewContainerByViewId e (TUNNEL_VIEW_ID d) = None"
    using that
    by (simp add: updateActivityBadge_def disposeActivity_def disposed_def Let_def
        split: option.splits)
  have step: "fpv_step d e PortForwarded (fpv_run d tr (fpv_constructor d e0)) =
      onTunnelModelChange d e (fpv_run d tr (fpv_constructor d e0))"
    by (rule step_PortForwarded [OF inv])
  show ?thesis
    unfolding step
    by (simp add: badges_def activities_updateActivityBadge [OF own] field
        activities_onTunnelModelChange [OF inv])
qed

theorem badge_needs_view_container_witness:
  "0 < size_forwarded env_no_container \<and>
   getViewContainerByViewId env_no_container (TUNNEL_VIEW_ID sample_deps) = None \<and>
   badges (updateActivityBadge sample_deps env_no_container
     (fpv_run sample_deps [(env_forwarded, PortForwarded)]
       (fpv_constructor sample_deps sample_env))) = [] \<and>
   badges (fpv_step sample_deps env_no_container PortForwarded
     (fpv_run sample_deps [(env_forwarded, PortForwarded)]
       (fpv_constructor sample_deps sample_env))) = [] \<and>
   badges (updateActivityBadge sample_deps env_forwarded
     (fpv_run sample_deps [] (fpv_constructor sample_deps sample_env))) = [(VIEWLET_ID, 1)]"
  using badge_needs_view_container [of env_no_container sample_deps
      "[(env_forwarded, PortForwarded)]" sample_env]
    badge_needs_view_container [of env_forwarded sample_deps "[]" sample_env]
  by (simp add: size_env_no_container container_env_no_container size_env_forwarded
      container_env_forwarded)

subsection \<open>Registering the forwarded ports view\<close>

lemma fpv_run_append: "fpv_run d (tr @ tr') st = fpv_run d tr' (fpv_run d tr st)"
  by (induction d tr st rule: fpv_run.induct) simp_all

lemma view_onTunnelModelChange:
  "registerViewsCalls (onTunnelModelChange d e st) = registerViewsCalls st \<and>
   contextKeyListener (onTunnelModelChange d e st) = contextKeyListener st"
  by (simp add: onTunnelModelChange_def others_updateStatusBar others_updateActivityBadge)

lemma view_fold_onTunnelModelChange:
  "registerViewsCalls (fold (\<lambda>h s. onTunnelModelChange d e s) hs st) = registerViewsCalls st \<and>
   contextKeyListener (fold (\<lambda>h s. onTunnelModelChange d e s) hs st) = contextKeyListener st"
  by (induction hs arbitrary: st) (simp_all add: view_onTunnelModelChange)

lemma view_onViewsRegistered_callback:
  "registerViewsCalls (onViewsRegistered_callback d e vs h st) = registerViewsCalls st \<and>
   contextKeyListener (onViewsRegistered_callback d e vs h st) = contextKeyListener st"
  by (simp add: onViewsRegistered_callback_def disposeViewsRegisteredListener_def
      disposed_def view_onTunnelModelChange)

lemma view_fold_onViewsRegistered:
  "registerViewsCalls (fold (onViewsRegistered_callback d e vs) hs st) = registerViewsCalls st \<and>
   contextKeyListener (fold (onViewsRegistered_callback d e vs) hs st) = contextKeyListener st"
  by (induction hs arbitrary: st) (simp_all add: view_onViewsRegistered_callback)

text \<open>Only a context change touches the listener and the registered views.\<close>

lemma view_step_other:
  "\<forall>a. ev \<noteq> ContextChanged a \<Longrightarrow>
   registerViewsCalls (fpv_step d e ev st) = registerViewsCalls st \<and>
   contextKeyListener (fpv_step d e ev st) = contextKeyListener st"
  by (cases ev) (auto simp: view_fold_onTunnelModelChange view_fold_onViewsRegistered)

text \<open>Without a listener nothing is registered any more.\<close>

lemma view_step_unheard:
  assumes "fpv_inv d st" and "contextKeyListener st = None"
  shows "registerViewsCalls (fpv_step d e ev st) = registerViewsCalls st \<and>
     contextKeyListener (fpv_step d e ev st) = None"
proof (cases "\<exists>a. ev = ContextChanged a")
  case True
  then obtain a where "ev = ContextChanged a" by blast
  with assms show ?thesis
    by (simp only: step_ContextChanged [OF assms(1)]) simp
next
  case False
  with view_step_other [of ev d e st] assms(2) show ?thesis by simp
qed

lemma view_run_unheard:
  "fpv_inv d st \<Longrightarrow> contextKeyListener st = None \<Longrightarrow>
   registerViewsCalls (fpv_run d tr st) = registerViewsCalls st \<and>
   contextKeyListener (fpv_run d tr st) = None"
proof (induction d tr st rule: fpv_run.induct)
  case (1 d st)
  then show ?case by simp
next
  case (2 d e ev tr st)
  from "2.prems" have "fpv_inv d (fpv_step d e ev st)"
    by (simp add: fpv_inv_step)
  moreover from "2.prems" view_step_unheard [of d st e ev]
  have "registerViewsCalls (fpv_step d e ev st) = registerViewsCalls st"
    and "contextKeyListener (fpv_step d e ev st) = None"
    by simp_all
  ultimately show ?case
    using "2.IH" by simp
qed

text \<open>While the context key is off, the controller keeps listening.\<close>

lemma enable_disabled:
  "truthy (remoteAuthority d) \<Longrightarrow> \<not> forwardedPortsViewEnabled e \<Longrightarrow>
   contextKeyListener (enableForwardedPortsView d e st) \<noteq> None \<and>
   registerViewsCalls (enableForwardedPortsView d e st) = registerViewsCalls st"
  by (simp add: enableForwardedPortsView_def disposeContextListener_def disposed_def
      onDidChangeContext_def newHandle_def Let_def split: option.splits)

lemma view_step_disabled:
  assumes "fpv_inv d st" and "contextKeyListener st \<noteq> None"
    and "\<not> forwardedPortsViewEnabled e"
  shows "contextKeyListener (fpv_step d e ev st) \<noteq> None \<and>
     registerViewsCalls (fpv_step d e ev st) = []"
proof -
  from assms have remote: "truthy (remoteAuthority d)" and none: "registerViewsCalls st = []"
    by (simp_all add: fpv_inv_def)
  show ?thesis
  proof (cases "\<exists>a. ev = ContextChanged a")
    case True
    then obtain a where "ev = ContextChanged a" by blast
    with assms none enable_disabled [OF remote assms(3), of st] show ?thesis
      by (simp only: step_ContextChanged [OF assms(1)]) simp
  next
    case False
    with view_step_other [of ev d e st] assms(2) none show ?thesis by simp
  qed
qed

lemma view_run_disabled:
  "fpv_inv d st \<Longrightarrow> contextKeyListener st \<noteq> None \<Longrightarrow>
   \<forall>x \<in> set tr. \<not> forwardedPortsViewEnabled (fst x) \<Longrightarrow>
   contextKeyListener (fpv_run d tr st) \<noteq> None \<and> registerViewsCalls (fpv_run d tr st) = []"
proof (induction d tr st rule: fpv_run.induct)
  case (1 d st)
  then show ?case by (simp add: fpv_inv_def)
next
  case (2 d e ev tr st)
  from "2.prems" have off: "\<not> forwardedPortsViewEnabled e" by simp
  from "2.prems" have "fpv_inv d (fpv_step d e ev st)"
    by (simp add: fpv_inv_step)
  moreover from view_step_disabled [OF "2.prems"(1) "2.prems"(2) off, of ev]
  have "contextKeyListener (fpv_step d e ev st) \<noteq> None" by simp
  ultimately show ?case
    using "2.IH" "2.prems"(3) by simp
qed

text \<open>The context change that finds the key on and the view container registers the view
  and leaves no listener.\<close>

lemma view_step_enabled:
  assumes "fpv_inv d st" and "contextKeyListener st \<noteq> None"
    and "forwardedPortsViewEnabled e" and "getViewContainerById e VIEWLET_ID = Some c"
  shows "registerViewsCalls (fpv_step d e (ContextChanged True) st) = [c] \<and>
     contextKeyListener (fpv_step d e (ContextChanged True) st) = None"
proof -
  from assms have remote: "truthy (remoteAuthority d)" and none: "registerViewsCalls st = []"
    by (simp_all add: fpv_inv_def)
  with assms show ?thesis
    by (simp only: step_ContextChanged [OF assms(1)])
       (auto simp: enableForwardedPortsView_def disposeContextListener_def disposed_def
          Let_def split: option.splits)
qed

lemma constructor_disabled:
  "truthy (remoteAuthority d) \<Longrightarrow> \<not> forwardedPortsViewEnabled e0 \<Longrightarrow>
   registerViewsCalls (fpv_constructor d e0) = [] \<and>
   contextKeyListener (fpv_constructor d e0) \<noteq> None"
  unfolding fpv_constructor_unfold
  by (simp add: enable_disabled) (simp add: fpv_new_def)

text \<open>
  Claim C5, as stated, fails. In the sample session the context key is off at
  construction, so the view is not registered and a listener (4) is attached. The key
  then becomes true while the lookup of the viewlet's view container fails: the listener
  is disposed, the view is not registered, and it is not registered later either, when
  the view container is found and the key changes again.
\<close>

theorem registered_once_flag_true_counterexample:
  "truthy (remoteAuthority sample_deps) \<and>
   \<not> forwardedPortsViewEnabled env_disabled \<and>
   registerViewsCalls (fpv_constructor sample_deps env_disabled) = [] \<and>
   contextListeners (fpv_constructor sample_deps env_disabled) = [4] \<and>
   forwardedPortsViewEnabled env_no_viewlet \<and>
   registerViewsCalls (fpv_run sample_deps [(env_no_viewlet, ContextChanged True)]
     (fpv_constructor sample_deps env_disabled)) = [] \<and>
   contextListeners (fpv_run sample_deps [(env_no_viewlet, ContextChanged True)]
     (fpv_constructor sample_deps env_disabled)) = [] \<and>
   registerViewsCalls (fpv_run sample_deps
     [(env_no_viewlet, ContextChanged True), (sample_env, ContextChanged True)]
     (fpv_constructor sample_deps env_disabled)) = []"
  by (simp add: sample_view_disabled fpv_new_def enableForwardedPortsView_def
      disposeContextListener_def disposed_def truthy_def)
     (simp add: sample_deps_def sample_env_def env_disabled_def env_no_viewlet_def)

text \<open>
  Claim C5, amended. In a remote session with the capability flag false at
  construction, the panel is not registered by the constructor; as long as every event
  finds the flag false, it stays unregistered and the context-key listener stays
  attached. Over any sequence of events the panel is registered at most once. When a
  context change that affects the flag arrives while the listener is attached, finds
  the flag true and finds the view container of the viewlet, the panel is registered
  exactly once, in that view container, and it stays registered exactly once whatever
  events follow, the flag flipping true, false and true again included.
\<close>

theorem panel_registered_once_when_container_found:
  assumes "truthy (remoteAuthority d)" and "\<not> forwardedPortsViewEnabled e0"
  shows "registerViewsCalls (fpv_constructor d e0) = [] \<and>
     ((\<forall>x \<in> set tr. \<not> forwardedPortsViewEnabled (fst x)) \<longrightarrow>
        registerViewsCalls (fpv_run d tr (fpv_constructor d e0)) = [] \<and>
        contextKeyListener (fpv_run d tr (fpv_constructor d e0)) \<noteq> None) \<and>
     length (registerViewsCalls (fpv_run d tr (fpv_constructor d e0))) \<le> 1 \<and>
     (\<forall>c. contextKeyListener (fpv_run d tr (fpv_constructor d e0)) \<noteq> None \<and>
          forwardedPortsViewEnabled e \<and> getViewContainerById e VIEWLET_ID = Some c \<longrightarrow>
        registerViewsCalls
          (fpv_run d (tr @ (e, ContextChanged True) # tr') (fpv_constructor d e0)) = [c])"
proof -
  have inv: "fpv_inv d (fpv_run d tr (fpv_constructor d e0))"
    by (rule fpv_inv_reachable)
  have first: "registerViewsCalls (fpv_constructor d e0) = []"
    and listening: "contextKeyListener (fpv_constructor d e0) \<noteq> None"
    using constructor_disabled [OF assms] by simp_all
  have second: "registerViewsCalls (fpv_run d tr (fpv_constructor d e0)) = [] \<and>
        contextKeyListener (fpv_run d tr (fpv_constructor d e0)) \<noteq> None"
    if "\<forall>x \<in> set tr. \<not> forwardedPortsViewEnabled (fst x)"
    using view_run_disabled [OF fpv_inv_constructor listening that] by simp
  from inv have third: "length (registerViewsCalls (fpv_run d tr (fpv_constructor d e0))) \<le> 1"
    by (simp add: fpv_inv_def)
  have fourth: "registerViewsCalls
          (fpv_run d (tr @ (e, ContextChanged True) # tr') (fpv_constructor d e0)) = [c]"
    if l: "contextKeyListener (fpv_run d tr (fpv_constructor d e0)) \<noteq> None"
      and f: "forwardedPortsViewEnabled e"
      and c: "getViewContainerById e VIEWLET_ID = Some c" for c
  proof -
    have "fpv_inv d (fpv_step d e (ContextChanged True) (fpv_run d tr (fpv_constructor d e0)))"
      using inv by (rule fpv_inv_step)
    from view_run_unheard [OF this, of tr'] view_step_enabled [OF inv l f c]
    have "registerViewsCalls (fpv_run d tr'
        (fpv_step d e (ContextChanged True) (fpv_run d tr (fpv_constructor d e0)))) = [c]"
      by simp
    then show ?thesis
      by (simp only: fpv_run_append fpv_run.simps)
  qed
  from first second third fourth show ?thesis by blast
qed

theorem panel_registered_once_when_container_found_witness:
  "truthy (remoteAuthority sample_deps) \<and>
   \<not> forwardedPortsViewEnabled env_disabled \<and>
   registerViewsCalls (fpv_constructor sample_deps env_disabled) = [] \<and>
   contextKeyListener (fpv_run sample_deps [(env_disabled, ContextChanged True)]
     (fpv_constructor sample_deps env_disabled)) \<noteq> None \<and>
   forwardedPortsViewEnabled sample_env \<and>
   getViewContainerById sample_env VIEWLET_ID = Some VIEWLET_ID \<and>
   registerViewsCalls
     (fpv_run sample_deps
        ([(env_disabled, ContextChanged True)] @ (sample_env, ContextChanged True) #
         [(env_disabled, ContextChanged True), (sample_env, ContextChanged True)])
        (fpv_constructor sample_deps env_disabled)) = [VIEWLET_ID]"
proof -
  have remote: "truthy (remoteAuthority sample_deps)"
    by (simp add: truthy_def sample_deps_def)
  have off: "\<not> forwardedPortsViewEnabled env_disabled"
    by (simp add: env_disabled_def)
  have all_off: "\<forall>x \<in> set [(env_disabled, ContextChanged True)].
      \<not> forwardedPortsViewEnabled (fst x)"
    by (simp add: env_disabled_def)
  have on: "forwardedPortsViewEnabled sample_env"
    by (simp add: sample_env_def)
  have found: "getViewContainerById sample_env VIEWLET_ID = Some VIEWLET_ID"
    by (simp add: sample_env_def)
  from panel_registered_once_when_container_found [OF remote off,
      of "[(env_disabled, ContextChanged True)]" sample_env
        "[(env_disabled, ContextChanged True), (sample_env, ContextChanged True)]"]
    all_off on found
  have "registerViewsCalls (fpv_constructor sample_deps env_disabled) = [] \<and>
     contextKeyListener (fpv_run sample_deps [(env_disabled, ContextChanged True)]
       (fpv_constructor sample_deps env_disabled)) \<noteq> None \<and>
     registerViewsCalls
       (fpv_run sample_deps
          ([(env_disabled, ContextChanged True)] @ (sample_env, ContextChanged True) #
           [(env_disabled, ContextChanged True), (sample_env, ContextChanged True)])
          (fpv_constructor sample_deps env_disabled)) = [VIEWLET_ID]"
    by blast
  with remote off on found show ?thesis by blast
qed

end
